theory Spec2Isabelle
  imports Main "HOL-Library.Word" "HOL-Library.Multiset" "HOL-Library.Log_Nat"
begin

unbundle bit_operations_syntax

section \<open>Strings and numbers of the host language\<close>

text \<open>
  A string of the program is a sequence of UTF-16 code units. For the pattern grammar the
  model takes the code units below 256 (ASCII and Latin-1), which are the values of
  \<^typ>\<open>char\<close>. On this range \<open>toLowerCase\<close> maps \<open>A\<close>..\<open>Z\<close> and the Latin-1
  capitals (192..222 without the multiplication sign 215) to the code unit 32 above and
  leaves every other code unit unchanged.
\<close>

definition toLowerCase_char :: "char \<Rightarrow> char" where
  "toLowerCase_char c =
     (let n = (of_char c :: nat)
      in if (65 \<le> n \<and> n \<le> 90) \<or> (192 \<le> n \<and> n \<le> 222 \<and> n \<noteq> 215)
         then char_of (n + 32) else c)"

definition toLowerCase :: "string \<Rightarrow> string" where
  "toLowerCase s = map toLowerCase_char s"

definition startsWith :: "string \<Rightarrow> string \<Rightarrow> bool" where
  "startsWith s p = (take (length p) s = p)"

definition endsWith :: "string \<Rightarrow> string \<Rightarrow> bool" where
  "endsWith s p = (length p \<le> length s \<and> drop (length s - length p) s = p)"

text \<open>\<open>s.includes(sub)\<close>: \<open>sub\<close> occurs in \<open>s\<close> at some position.\<close>

fun str_includes :: "string \<Rightarrow> string \<Rightarrow> bool" where
  "str_includes [] sub = (sub = [])"
| "str_includes (c # cs) sub = (startsWith (c # cs) sub \<or> str_includes cs sub)"

text \<open>The character class \<open>[0-9]\<close>, and the two regular expressions built from it:
  \<open>/[0-9]/.test(s)\<close> (a digit anywhere) and \<open>/^[0-9]/.test(s)\<close> (a digit first).\<close>

definition is_digit :: "char \<Rightarrow> bool" where
  "is_digit c = (48 \<le> (of_char c :: nat) \<and> (of_char c :: nat) \<le> 57)"

definition test_has_digit :: "string \<Rightarrow> bool" where
  "test_has_digit s = list_ex is_digit s"

definition test_starts_with_digit :: "string \<Rightarrow> bool" where
  "test_starts_with_digit s = (case s of [] \<Rightarrow> False | c # _ \<Rightarrow> is_digit c)"

text \<open>
  \<open>ToInt32\<close> wraps an integer to a signed 32-bit value; \<open>x << k\<close> and \<open>x & y\<close>
  convert their operands with it and give a signed 32-bit result.
\<close>

definition ToInt32 :: "int \<Rightarrow> int" where
  "ToInt32 x = (let m = x mod 2 ^ 32 in if 2 ^ 31 \<le> m then m - 2 ^ 32 else m)"

definition shl32 :: "int \<Rightarrow> nat \<Rightarrow> int" where
  "shl32 x k = ToInt32 (ToInt32 x * 2 ^ (k mod 32))"

definition and32 :: "int \<Rightarrow> int \<Rightarrow> int" where
  "and32 x y = ToInt32 (ToInt32 x AND ToInt32 y)"

datatype error = SyntaxError | TypeError | RangeError

section \<open>The membership cache: class Bitmap\<close>

text \<open>
  The fields \<open>size\<close> and \<open>bits\<close> (a \<open>Uint8Array\<close>). The capacity is an integer;
  the constructor does not check its sign, so the field is an \<^typ>\<open>int\<close>.
\<close>

record bitmap =
  bitmap_size :: int
  bitmap_bits :: "8 word list"

text \<open>
  \<open>constructor(size = 1_000_000)\<close>: an absent argument takes the default.
  \<open>new Uint8Array(Math.ceil(size / 8))\<close> raises a RangeError for a negative length
  and for one above \<open>2^53 - 1\<close>; \<open>Math.ceil\<close> of a value in \<open>(-1, 0]\<close> is zero.
  Running out of memory is not modelled.
\<close>

definition Bitmap :: "int option \<Rightarrow> error + bitmap" where
  "Bitmap arg =
     (let size = (case arg of None \<Rightarrow> 1000000 | Some n \<Rightarrow> n);
          len = - ((- size) div 8)
      in if len < 0 \<or> 2 ^ 53 - 1 < len then Inl RangeError
         else Inr \<lparr>bitmap_size = size, bitmap_bits = replicate (nat len) 0\<rparr>)"

text \<open>
  The cache reads a string through \<open>value.length\<close> and \<open>value.charCodeAt(i)\<close>
  only, so a value is the list of its UTF-16 code units, numbers from 0 to 65535;
  \<open>charCodes\<close> gives the code units of a string of the pattern grammar.
\<close>

type_synonym code_units = "nat list"

definition charCodes :: "string \<Rightarrow> code_units" where
  "charCodes s = map of_char s"

text \<open>The loop of \<open>hash\<close>, from index \<open>i\<close> of the value on, with the running hash.\<close>

fun hash_loop :: "int \<Rightarrow> code_units \<Rightarrow> int" where
  "hash_loop hash [] = hash"
| "hash_loop hash (c # cs) =
     (let hash1 = (shl32 hash 5 - hash) + int c;
          hash2 = and32 hash1 hash1
      in hash_loop hash2 cs)"

text \<open>
  \<open>Math.abs(hash) % this.size\<close>: the remainder has the sign of the dividend, which is
  not negative here, and is NaN (\<open>None\<close>) when the size is zero.
\<close>

definition hash :: "bitmap \<Rightarrow> code_units \<Rightarrow> nat option" where
  "hash b v =
     (if bitmap_size b = 0 then None
      else Some (nat (\<bar>hash_loop 0 v\<bar> mod \<bar>bitmap_size b\<bar>)))"

text \<open>
  \<open>add\<close>: a write to a typed array outside its bounds, or at the index NaN, is
  ignored. The bit index is at most 7, so the stored byte is the bitwise or.
\<close>

definition add :: "code_units \<Rightarrow> bitmap \<Rightarrow> bitmap" where
  "add v b =
     (case hash b v of
        None \<Rightarrow> b
      | Some index \<Rightarrow>
          (let byteIndex = index div 8; bitIndex = index mod 8
           in if byteIndex < length (bitmap_bits b)
              then b\<lparr>bitmap_bits :=
                     (bitmap_bits b)[byteIndex := (bitmap_bits b ! byteIndex) OR push_bit bitIndex 1]\<rparr>
              else b))"

text \<open>\<open>test\<close>: a read outside the bounds gives \<open>undefined\<close>, whose bitwise and is 0.\<close>

definition test :: "bitmap \<Rightarrow> code_units \<Rightarrow> bool" where
  "test b v =
     (case hash b v of
        None \<Rightarrow> False
      | Some index \<Rightarrow>
          (let byteIndex = index div 8; bitIndex = index mod 8
           in byteIndex < length (bitmap_bits b) \<and>
              (bitmap_bits b ! byteIndex) AND push_bit bitIndex 1 \<noteq> 0))"

text \<open>
  The persisted form is JSON text, written by the host's \<open>JSON.stringify\<close> and read by
  its \<open>JSON.parse\<close>. The model works on the encoded value: \<open>serialize\<close> gives the
  value handed to \<open>JSON.stringify\<close>, and \<open>deserialize\<close> takes the outcome of
  \<open>JSON.parse(data)\<close>, which is \<open>None\<close> when the text cannot be parsed (a
  SyntaxError). Of the parsed value \<open>deserialize\<close> reads the properties \<open>size\<close>
  and \<open>bits\<close> only. The model covers the value \<open>null\<close> and the values whose
  \<open>size\<close>, when present, is an integer and whose \<open>bits\<close>, when present, is an array
  of integers: the objects \<open>serialize\<close> writes, with either property possibly absent.
\<close>

datatype json = JSON_null | JSON_object "int option" "int list option"

definition serialize :: "bitmap \<Rightarrow> json" where
  "serialize b = JSON_object (Some (bitmap_size b)) (Some (map uint (bitmap_bits b)))"

text \<open>\<open>new Uint8Array(parsed.bits)\<close>: every element is stored modulo 256; an absent
  argument gives the empty array.\<close>

definition Uint8Array_from :: "int list option \<Rightarrow> 8 word list" where
  "Uint8Array_from arg = (case arg of None \<Rightarrow> [] | Some xs \<Rightarrow> map word_of_int xs)"

text \<open>\<open>deserialize\<close>: reading a property of \<open>null\<close> raises a TypeError; an absent
  \<open>size\<close> reaches the constructor as \<open>undefined\<close>.\<close>

definition deserialize :: "json option \<Rightarrow> error + bitmap" where
  "deserialize parse_result =
     (case parse_result of
        None \<Rightarrow> Inl SyntaxError
      | Some JSON_null \<Rightarrow> Inl TypeError
      | Some (JSON_object parsed_size parsed_bits) \<Rightarrow>
          (case Bitmap parsed_size of
             Inl e \<Rightarrow> Inl e
           | Inr bitmap \<Rightarrow> Inr (bitmap\<lparr>bitmap_bits := Uint8Array_from parsed_bits\<rparr>)))"

text \<open>The reference hash of the specification: \<open>hash = hash * 31 + charCode\<close>, wrapped
  to a signed 32-bit integer at each step, then the absolute value modulo the capacity.\<close>

fun hash_spec_loop :: "int \<Rightarrow> code_units \<Rightarrow> int" where
  "hash_spec_loop h [] = h"
| "hash_spec_loop h (c # cs) = hash_spec_loop (ToInt32 (h * 31 + int c)) cs"

definition hash_spec :: "int \<Rightarrow> code_units \<Rightarrow> int" where
  "hash_spec capacity v = \<bar>hash_spec_loop 0 v\<bar> mod capacity"

text \<open>The data model's invariant: \<open>bits\<close> has \<open>ceil(capacity / 8)\<close> bytes.\<close>

definition allocated :: "bitmap \<Rightarrow> bool" where
  "allocated b = (int (length (bitmap_bits b)) = - ((- bitmap_size b) div 8))"

section \<open>Counts held in doubles\<close>

text \<open>
  The numbers the combination counts take: a natural number held in a double, or the
  double's \<open>Infinity\<close> or \<open>NaN\<close>. \<open>round_double\<close> is the double nearest to a
  natural number (ties to the even significand of 53 bits), before overflow.
\<close>

datatype number = Num nat | Infinity | NaN

definition round_double :: "nat \<Rightarrow> nat" where
  "round_double x =
     (if x < 2 ^ 53 then x
      else (let e = floorlog 2 x - 53; q = x div 2 ^ e; r = x mod 2 ^ e
            in if 2 ^ e < 2 * r \<or> (2 * r = 2 ^ e \<and> odd q) then (q + 1) * 2 ^ e else q * 2 ^ e))"

text \<open>The product \<open>a * b\<close> of two such numbers: the exact product rounded once, and
  \<open>Infinity\<close> from \<open>2^1024\<close> on; \<open>Infinity * 0\<close> is \<open>NaN\<close>.\<close>

fun times_number :: "number \<Rightarrow> number \<Rightarrow> number" where
  "times_number (Num x) (Num y) =
     (let r = round_double (x * y) in if r < 2 ^ 1024 then Num r else Infinity)"
| "times_number NaN _ = NaN"
| "times_number _ NaN = NaN"
| "times_number Infinity (Num y) = (if y = 0 then NaN else Infinity)"
| "times_number (Num x) Infinity = (if x = 0 then NaN else Infinity)"
| "times_number Infinity Infinity = Infinity"

section \<open>The pattern grammar\<close>

definition split_chars :: "string \<Rightarrow> string list" where
  "split_chars s = map (\<lambda>c. [c]) s"

definition CONSONANTS :: "string list" where
  "CONSONANTS = split_chars ''bcdfghjklmnpqrstvwxz''"

definition VOWELS :: "string list" where
  "VOWELS = split_chars ''aeiou''"

definition NUMBERS :: "string list" where
  "NUMBERS = split_chars ''0123456789''"

definition LETTERS :: "string list" where
  "LETTERS = split_chars ''abcdefghijklmnopqrstuvwxyz''"

definition ALL_CHARS :: "string list" where
  "ALL_CHARS = filter (\<lambda>char. char \<noteq> []) (LETTERS @ split_chars ''0123456789'' @ [''-''])"

record PatternPart =
  part_type :: string
  part_value :: "string option"
  possibilities :: "string list option"
  isWildcard :: "bool option"

text \<open>The state of \<open>parsePattern\<close> is the pair of \<open>parts\<close> and \<open>currentLiteral\<close>.\<close>

definition processLiteral :: "PatternPart list \<times> string \<Rightarrow> PatternPart list \<times> string" where
  "processLiteral st =
     (case st of (parts, currentLiteral) \<Rightarrow>
        if currentLiteral \<noteq> []
        then (parts @ [\<lparr>part_type = ''literal'', part_value = Some currentLiteral,
                         possibilities = Some [toLowerCase currentLiteral],
                         isWildcard = None\<rparr>], [])
        else (parts, currentLiteral))"

definition push :: "PatternPart \<Rightarrow> PatternPart list \<times> string \<Rightarrow> PatternPart list \<times> string" where
  "push part st = (fst st @ [part], snd st)"

fun parse_loop :: "string \<Rightarrow> PatternPart list \<times> string \<Rightarrow> PatternPart list \<times> string" where
  "parse_loop [] st = st"
| "parse_loop (char # rest) st =
     (let lowerChar = toLowerCase [char]
      in if lowerChar = ''c'' \<or> lowerChar = ''v'' \<or> lowerChar = ''n'' \<or> lowerChar = ''l''
         then parse_loop rest
                (push (if lowerChar = ''c''
                       then \<lparr>part_type = ''c'', part_value = None,
                              possibilities = Some CONSONANTS, isWildcard = None\<rparr>
                       else if lowerChar = ''v''
                       then \<lparr>part_type = ''v'', part_value = None,
                              possibilities = Some VOWELS, isWildcard = None\<rparr>
                       else if lowerChar = ''n''
                       then \<lparr>part_type = ''n'', part_value = None,
                              possibilities = Some NUMBERS, isWildcard = None\<rparr>
                       else \<lparr>part_type = ''l'', part_value = None,
                              possibilities = Some LETTERS, isWildcard = None\<rparr>)
                   (processLiteral st))
         else if char = CHR ''_''
         then parse_loop rest
                (push \<lparr>part_type = ''wildcard'', part_value = None,
                        possibilities = Some ALL_CHARS, isWildcard = Some True\<rparr>
                   (processLiteral st))
         else if char = CHR ''-''
         then parse_loop rest
                (push \<lparr>part_type = [char], part_value = None,
                        possibilities = Some [[char]], isWildcard = None\<rparr>
                   (processLiteral st))
         else parse_loop rest (fst st, snd st @ [char]))"

definition parsePattern :: "string \<Rightarrow> PatternPart list" where
  "parsePattern pattern = fst (processLiteral (parse_loop pattern ([], [])))"

definition validChars :: "char set" where
  "validChars = set ''abcdefghijklmnopqrstuvwxyzABCDEFGHIJKLMNOPQRSTUVWXYZ0123456789-_cvnl''"

text \<open>The validators return the message, or \<open>None\<close> for \<open>null\<close>.\<close>

definition validatePattern :: "string \<Rightarrow> string option" where
  "validatePattern pattern =
     (if pattern = [] then Some ''Pattern cannot be empty''
      else if str_includes pattern '' '' then Some ''Pattern cannot contain spaces''
      else if startsWith pattern ''-'' then Some ''Pattern cannot start with hyphen''
      else if endsWith pattern ''-'' then Some ''Pattern cannot end with hyphen''
      else if str_includes pattern ''--'' then Some ''Pattern cannot contain consecutive hyphens''
      else (case find (\<lambda>char. char \<notin> validChars) pattern of
              Some char \<Rightarrow> Some (''Invalid character in pattern: '' @ [char])
            | None \<Rightarrow> None))"

text \<open>The regular expression \<open>/^[.a-z0-9]+$/\<close> of \<open>validateExtensions\<close>.\<close>

definition ext_char :: "char \<Rightarrow> bool" where
  "ext_char c = (c = CHR ''.'' \<or> (97 \<le> (of_char c :: nat) \<and> (of_char c :: nat) \<le> 122) \<or> is_digit c)"

definition test_ext_format :: "string \<Rightarrow> bool" where
  "test_ext_format ext = (ext \<noteq> [] \<and> list_all ext_char ext)"

fun validateExtensions_loop :: "string list \<Rightarrow> string option" where
  "validateExtensions_loop [] = None"
| "validateExtensions_loop (ext # rest) =
     (if \<not> startsWith ext ''.'' then Some (''Extension must start with dot: '' @ ext)
      else if length ext < 2 then Some (''Extension too short: '' @ ext)
      else if \<not> test_ext_format ext then Some (''Invalid extension format: '' @ ext)
      else validateExtensions_loop rest)"

definition validateExtensions :: "string list \<Rightarrow> string option" where
  "validateExtensions extensions =
     (if length extensions = 0 then Some ''At least one extension is required''
      else validateExtensions_loop extensions)"

text \<open>The regular expression \<open>^\.[a-z0-9]+$\<close> of the specification: a dot, then one
  or more lower-case letters or digits.\<close>

definition spec_ext_format :: "string \<Rightarrow> bool" where
  "spec_ext_format ext =
     (case ext of
        [] \<Rightarrow> False
      | c # cs \<Rightarrow> c = CHR ''.'' \<and> cs \<noteq> []
                  \<and> list_all (\<lambda>d. (97 \<le> (of_char d :: nat) \<and> (of_char d :: nat) \<le> 122) \<or> is_digit d) cs)"

section \<open>The combination generator\<close>

text \<open>
  \<open>shuffleArray\<close>: \<open>pick i\<close> is the value of \<open>Math.floor(Math.random() * (i + 1))\<close>
  at loop index \<open>i\<close>, one of \<open>0, \<dots>, i\<close>. The loop runs \<open>i\<close> from
  \<open>array.length - 1\<close> down to 1 and swaps the elements at \<open>i\<close> and \<open>j\<close>.
\<close>

definition pick_valid :: "(nat \<Rightarrow> nat) \<Rightarrow> bool" where
  "pick_valid pick = (\<forall>i. pick i \<le> i)"

fun shuffle_loop :: "(nat \<Rightarrow> nat) \<Rightarrow> nat \<Rightarrow> 'a list \<Rightarrow> 'a list" where
  "shuffle_loop pick 0 array = array"
| "shuffle_loop pick (Suc k) array =
     (let i = Suc k; j = pick i
      in shuffle_loop pick k (array[i := array ! j, j := array ! i]))"

definition shuffleArray :: "(nat \<Rightarrow> nat) \<Rightarrow> 'a list \<Rightarrow> 'a list" where
  "shuffleArray pick array = shuffle_loop pick (length array - 1) array"

text \<open>The outcome in which \<open>Math.random()\<close> returns 0 every time.\<close>

definition pick_zero :: "nat \<Rightarrow> nat" where
  "pick_zero i = 0"

text \<open>\<open>part.possibilities?.length || 1\<close>\<close>

definition length_or_1 :: "PatternPart \<Rightarrow> nat" where
  "length_or_1 part =
     (case possibilities part of
        None \<Rightarrow> 1
      | Some poss \<Rightarrow> if length poss = 0 then 1 else length poss)"

definition totalCombinations :: "PatternPart list \<Rightarrow> number" where
  "totalCombinations patternParts =
     foldl (\<lambda>acc part. times_number acc (Num (length_or_1 part))) (Num 1) patternParts"

text \<open>
  In the decoding loop \<open>current\<close> is a natural number, or not finite (\<open>None\<close>: NaN or
  Infinity, after a division by an empty alphabet's length 0); \<open>current % n\<close> is then
  NaN and the element read at it is \<open>undefined\<close> (\<open>None\<close>), which is appended as
  the text \<open>undefined\<close>. \<open>lastChar\<close> holds the previous unit, or \<open>undefined\<close>.
\<close>

definition modulo_current :: "nat option \<Rightarrow> nat \<Rightarrow> nat option" where
  "modulo_current current n =
     (case current of None \<Rightarrow> None | Some c \<Rightarrow> if n = 0 then None else Some (c mod n))"

definition floor_divide :: "nat option \<Rightarrow> nat \<Rightarrow> nat option" where
  "floor_divide current n =
     (case current of None \<Rightarrow> None | Some c \<Rightarrow> if n = 0 then None else Some (c div n))"

definition ToString :: "string option \<Rightarrow> string" where
  "ToString v = (case v of None \<Rightarrow> ''undefined'' | Some s \<Rightarrow> s)"

datatype decoded = Yield string | Skip | Throw error

text \<open>
  The inner loop over the parts from index \<open>j\<close> on, and the check after it. Setting
  \<open>isValid = false\<close> and leaving the loop skips the index; reading the length of absent
  \<open>possibilities\<close> raises a TypeError.
\<close>

fun decode_loop :: "PatternPart list \<Rightarrow> nat option \<Rightarrow> string \<Rightarrow> string option \<Rightarrow> decoded" where
  "decode_loop [] current result lastChar =
     (if endsWith result ''-'' \<or> test_starts_with_digit result then Skip else Yield result)"
| "decode_loop (part # rest) current result lastChar =
     (case possibilities part of
        None \<Rightarrow> Throw TypeError
      | Some poss \<Rightarrow>
          (let index = modulo_current current (length poss);
               char = (case index of None \<Rightarrow> None | Some k \<Rightarrow> Some (poss ! k))
           in if length result = 0 \<and> (char = Some ''-'' \<or> test_has_digit (ToString char))
              then Skip
              else if char = Some ''-'' \<and> lastChar = Some ''-''
              then Skip
              else decode_loop rest (floor_divide current (length poss))
                     (result @ ToString char) char))"

definition decode :: "PatternPart list \<Rightarrow> nat \<Rightarrow> decoded" where
  "decode patternParts i = decode_loop patternParts (Some i) [] (Some [])"

text \<open>
  The generator is lazy: it yields the strings of the indices in the shuffled order and
  stops at the first index that raises. Its outcome is the list of the strings yielded
  and the error that ended it, if any.
\<close>

fun emit :: "PatternPart list \<Rightarrow> nat list \<Rightarrow> string list \<times> error option" where
  "emit patternParts [] = ([], None)"
| "emit patternParts (i # indices) =
     (case decode patternParts i of
        Throw e \<Rightarrow> ([], Some e)
      | Skip \<Rightarrow> emit patternParts indices
      | Yield result \<Rightarrow>
          (case emit patternParts indices of (out, e) \<Rightarrow> (result # out, e)))"

text \<open>\<open>Array.from({length: n}, (_, i) => i)\<close> raises a RangeError when the length
  exceeds \<open>2^32 - 1\<close> (also for \<open>Infinity\<close>) and takes NaN as the length 0.\<close>

definition generateCombinations ::
    "(nat \<Rightarrow> nat) \<Rightarrow> PatternPart list \<Rightarrow> string list \<times> error option" where
  "generateCombinations pick patternParts =
     (case totalCombinations patternParts of
        Num n \<Rightarrow>
          if n \<le> 2 ^ 32 - 1 then emit patternParts (shuffleArray pick [0..<n])
          else ([], Some RangeError)
      | Infinity \<Rightarrow> ([], Some RangeError)
      | NaN \<Rightarrow> emit patternParts (shuffleArray pick []))"

section \<open>The pattern analyzer\<close>

record PatternEntry =
  entry_pattern :: string
  entry_extensions :: "string list"
  entry_comment :: "string option"

record PatternAnalysis =
  analysis_pattern :: string
  analysis_extensions :: "string list"
  combinations :: number
  totalDomains :: number
  analysis_parts :: "PatternPart list"
  analysis_comment :: "string option"

text \<open>The reducer of \<open>analyzePattern\<close>: a part without \<open>possibilities\<close> leaves the
  accumulator as it is.\<close>

definition count_step :: "number \<Rightarrow> PatternPart \<Rightarrow> number" where
  "count_step acc part =
     (case possibilities part of
        None \<Rightarrow> acc
      | Some poss \<Rightarrow> times_number acc (Num (length poss)))"

definition analyzePattern :: "PatternEntry \<Rightarrow> string + PatternAnalysis" where
  "analyzePattern entry =
     (case validatePattern (entry_pattern entry) of
        Some validationResult \<Rightarrow> Inl validationResult
      | None \<Rightarrow>
          (case validateExtensions (entry_extensions entry) of
             Some extensionResult \<Rightarrow> Inl extensionResult
           | None \<Rightarrow>
               (let ps = parsePattern (entry_pattern entry);
                    count = foldl count_step (Num 1) ps;
                    total = times_number count (Num (length (entry_extensions entry)))
                in Inr \<lparr>analysis_pattern = entry_pattern entry,
                         analysis_extensions = entry_extensions entry,
                         combinations = count,
                         totalDomains = total,
                         analysis_parts = ps,
                         analysis_comment = entry_comment entry\<rparr>)))"

text \<open>The combination count of the specification: the exact product of the alphabet
  sizes of the segments.\<close>

definition alphabet_size :: "PatternPart \<Rightarrow> nat" where
  "alphabet_size part = (case possibilities part of None \<Rightarrow> 1 | Some poss \<Rightarrow> length poss)"

definition combinationCount :: "PatternPart list \<Rightarrow> nat" where
  "combinationCount ps = prod_list (map alphabet_size ps)"

section \<open>Auxiliary notions for the proofs\<close>

text \<open>
  What \<open>parsePattern\<close> guarantees of every alphabet: it is not empty, has no repeated
  unit, its units are not empty and have one length, and a unit is the hyphen or has no
  hyphen in it. A literal part's only unit is its lower-cased text.
\<close>

definition alphabet_ok :: "string list \<Rightarrow> bool" where
  "alphabet_ok poss =
     (poss \<noteq> [] \<and> distinct poss
      \<and> (\<forall>u\<in>set poss. u \<noteq> [] \<and> length u = length (hd poss) \<and> (u = ''-'' \<or> CHR ''-'' \<notin> set u)))"

definition part_ok :: "PatternPart \<Rightarrow> bool" where
  "part_ok part =
     ((case possibilities part of None \<Rightarrow> False | Some poss \<Rightarrow> alphabet_ok poss)
      \<and> (part_type part = ''literal'' \<longrightarrow>
           (\<exists>v. part_value part = Some v \<and> possibilities part = Some [toLowerCase v])))"

text \<open>The four pruning rules on a candidate.\<close>

definition pruned :: "string \<Rightarrow> bool" where
  "pruned c = (\<not> startsWith c ''-'' \<and> \<not> test_starts_with_digit c
               \<and> \<not> str_includes c ''--'' \<and> \<not> endsWith c ''-'')"

text \<open>The invariant of the decoding loop on \<open>result\<close> and \<open>lastChar\<close>.\<close>

definition decode_inv :: "string \<Rightarrow> string option \<Rightarrow> bool" where
  "decode_inv result lastChar =
     (\<not> str_includes result ''--''
      \<and> (result \<noteq> [] \<longrightarrow> hd result \<noteq> CHR ''-'' \<and> \<not> is_digit (hd result))
      \<and> (result \<noteq> [] \<and> last result = CHR ''-'' \<longrightarrow> lastChar = Some ''-''))"

text \<open>The units an index selects, concatenated without any pruning (the mixed-radix
  decoding, first part least significant), and the string an index yields, if any.\<close>

fun units :: "PatternPart list \<Rightarrow> nat \<Rightarrow> string" where
  "units [] c = []"
| "units (part # rest) c =
     (case possibilities part of
        None \<Rightarrow> []
      | Some poss \<Rightarrow> poss ! (c mod length poss) @ units rest (c div length poss))"

definition yield_of :: "PatternPart list \<Rightarrow> nat \<Rightarrow> string option" where
  "yield_of ps i = (case decode ps i of Yield s \<Rightarrow> Some s | _ \<Rightarrow> None)"

text \<open>The part \<open>parsePattern\<close> builds for an underscore.\<close>

definition wild :: PatternPart where
  "wild = \<lparr>part_type = ''wildcard'', part_value = None, possibilities = Some ALL_CHARS,
            isWildcard = Some True\<rparr>"

section \<open>Properties of the membership cache\<close>

lemma ToInt32_mod: "ToInt32 x mod 2 ^ 32 = x mod 2 ^ 32"
proof -
  have "(x mod 2 ^ 32 - 2 ^ 32) mod 2 ^ 32 = x mod (2 ^ 32 :: int)"
    by (metis mod_diff_right_eq mod_self diff_zero mod_mod_trivial)
  then show ?thesis
    by (simp add: ToInt32_def Let_def)
qed

lemma ToInt32_cong: "x mod 2 ^ 32 = y mod 2 ^ 32 \<Longrightarrow> ToInt32 x = ToInt32 y"
  by (simp add: ToInt32_def)

lemma ToInt32_idem: "ToInt32 (ToInt32 x) = ToInt32 x"
  by (rule ToInt32_cong) (rule ToInt32_mod)

lemma and32_same: "and32 x x = ToInt32 x"
  by (simp add: and32_def ToInt32_idem)

lemma hash_step: "and32 ((shl32 h 5 - h) + c) ((shl32 h 5 - h) + c) = ToInt32 (h * 31 + c)"
proof -
  have "shl32 h 5 mod 2 ^ 32 = (h * 32) mod 2 ^ 32"
  proof -
    have "shl32 h 5 = ToInt32 (ToInt32 h * 32)"
      by (simp add: shl32_def)
    then have "shl32 h 5 mod 2 ^ 32 = (ToInt32 h * 32) mod 2 ^ 32"
      by (simp only: ToInt32_mod)
    also have "\<dots> = ((ToInt32 h mod 2 ^ 32) * 32) mod 2 ^ 32"
      by (simp only: mod_mult_left_eq)
    also have "\<dots> = ((h mod 2 ^ 32) * 32) mod 2 ^ 32"
      by (simp only: ToInt32_mod)
    also have "\<dots> = (h * 32) mod 2 ^ 32"
      by (simp only: mod_mult_left_eq)
    finally show ?thesis .
  qed
  then have "(shl32 h 5 - h) mod 2 ^ 32 = (h * 32 - h) mod 2 ^ 32"
    by (metis mod_diff_left_eq)
  then have "((shl32 h 5 - h) + c) mod 2 ^ 32 = ((h * 32 - h) + c) mod 2 ^ 32"
    by (metis mod_add_left_eq)
  moreover have "(h * 32 - h) + c = h * 31 + c"
    by simp
  ultimately have "((shl32 h 5 - h) + c) mod 2 ^ 32 = (h * 31 + c) mod 2 ^ 32"
    by (simp only:)
  then have "ToInt32 ((shl32 h 5 - h) + c) = ToInt32 (h * 31 + c)"
    by (rule ToInt32_cong)
  then show ?thesis
    by (simp only: and32_same)
qed

lemma hash_loop_spec: "hash_loop h v = hash_spec_loop h v"
  by (induction v arbitrary: h) (simp_all add: hash_step Let_def)

lemma hash_bits_update [simp]: "hash (b\<lparr>bitmap_bits := bs\<rparr>) v = hash b v"
  by (simp add: hash_def)

lemma hash_add [simp]: "hash (add v b) x = hash b x"
  by (simp add: add_def Let_def split: option.splits)

lemma size_add [simp]: "bitmap_size (add v b) = bitmap_size b"
  by (simp add: add_def Let_def split: option.splits)

lemma length_bits_add [simp]: "length (bitmap_bits (add v b)) = length (bitmap_bits b)"
  by (simp add: add_def Let_def split: option.splits)

lemma Bitmap_allocated: "Bitmap arg = Inr b \<Longrightarrow> allocated b"
  by (auto simp: Bitmap_def allocated_def Let_def split: if_splits option.splits)

lemma allocated_add: "allocated b \<Longrightarrow> allocated (add v b)"
  by (simp add: allocated_def)

lemma allocated_fold_add: "allocated b \<Longrightarrow> allocated (fold add vs b)"
  by (induction vs arbitrary: b) (simp_all add: allocated_add)

lemma test_bit:
  "test b v =
     (case hash b v of
        None \<Rightarrow> False
      | Some index \<Rightarrow> index div 8 < length (bitmap_bits b)
                      \<and> bit (bitmap_bits b ! (index div 8)) (index mod 8))"
  by (simp add: test_def Let_def bit_iff_and_push_bit_not_eq_0 split: option.splits)

lemma test_add_mono: "test b x \<Longrightarrow> test (add v b) x"
  by (auto simp: test_bit add_def Let_def nth_list_update bit_or_iff split: option.splits)

lemma test_fold_add_mono: "test b x \<Longrightarrow> test (fold add vs b) x"
  by (induction vs arbitrary: b) (simp_all add: test_add_mono)

lemma hash_in_bounds:
  assumes "allocated b" "0 < bitmap_size b" "hash b v = Some index"
  shows "index div 8 < length (bitmap_bits b)"
proof -
  from assms have "int index < bitmap_size b"
    by (auto simp: hash_def split: if_splits)
  moreover from assms have "int (length (bitmap_bits b)) = - ((- bitmap_size b) div 8)"
    by (simp add: allocated_def)
  ultimately have "int (index div 8) < int (length (bitmap_bits b))"
    by (simp add: zdiv_int)
  then show ?thesis by simp
qed

lemma test_add_same:
  assumes "allocated b" "0 < bitmap_size b"
  shows "test (add s b) s"
proof -
  from assms obtain index where h: "hash b s = Some index"
    by (auto simp: hash_def)
  with assms have "index div 8 < length (bitmap_bits b)"
    by (rule hash_in_bounds)
  with h show ?thesis
    by (simp add: test_bit add_def Let_def bit_or_iff bit_exp_iff)
qed

text \<open>
  Claim C4 as stated fails: \<open>deserialize\<close> takes the byte array from the text as it
  is, so a cache with a capacity greater than zero can have fewer than
  \<open>ceil(capacity / 8)\<close> bytes. The parsed object with \<open>size\<close> 8 and no \<open>bits\<close>
  gives a cache of capacity 8 without bytes: the string \<open>a\<close> hashes to bit 1 of byte 0,
  the write of \<open>add\<close> is outside the array and ignored, and \<open>test\<close> is false
  immediately after \<open>add\<close>. The same happens with \<open>size\<close> 100 and the one byte 255,
  where \<open>a\<close> hashes to byte 12.
\<close>

theorem add_then_test_counterexample:
  "deserialize (Some (JSON_object (Some 8) None))
     = Inr \<lparr>bitmap_size = 8, bitmap_bits = []\<rparr>
   \<and> 0 < bitmap_size \<lparr>bitmap_size = 8, bitmap_bits = []\<rparr>
   \<and> \<not> test (add (charCodes ''a'') \<lparr>bitmap_size = 8, bitmap_bits = []\<rparr>) (charCodes ''a'')
   \<and> deserialize (Some (JSON_object (Some 100) (Some [255])))
     = Inr \<lparr>bitmap_size = 100, bitmap_bits = [255]\<rparr>
   \<and> 0 < bitmap_size \<lparr>bitmap_size = 100, bitmap_bits = [255]\<rparr>
   \<and> \<not> test (add (charCodes ''a'') \<lparr>bitmap_size = 100, bitmap_bits = [255]\<rparr>)
         (charCodes ''a'')"
proof -
  have d8: "deserialize (Some (JSON_object (Some 8) None))
     = Inr \<lparr>bitmap_size = 8, bitmap_bits = []\<rparr>"
    by (simp add: deserialize_def Bitmap_def Uint8Array_from_def)
  have d100: "deserialize (Some (JSON_object (Some 100) (Some [255])))
     = Inr \<lparr>bitmap_size = 100, bitmap_bits = [255]\<rparr>"
    by (simp add: deserialize_def Bitmap_def Uint8Array_from_def)
  have h8: "hash \<lparr>bitmap_size = 8, bitmap_bits = []\<rparr> (charCodes ''a'') = Some 1"
    by (simp add: hash_def charCodes_def shl32_def and32_def ToInt32_def)
  have h100: "hash \<lparr>bitmap_size = 100, bitmap_bits = [255]\<rparr> (charCodes ''a'') = Some 97"
    by (simp add: hash_def charCodes_def shl32_def and32_def ToInt32_def)
  have t8: "\<not> test (add (charCodes ''a'') \<lparr>bitmap_size = 8, bitmap_bits = []\<rparr>) (charCodes ''a'')"
    by (simp add: test_def h8)
  have t100: "\<not> test (add (charCodes ''a'') \<lparr>bitmap_size = 100, bitmap_bits = [255]\<rparr>)
         (charCodes ''a'')"
    by (simp add: test_def h100)
  from d8 t8 d100 t100 show ?thesis
    by simp
qed

text \<open>
  Claim C4, as amended. For every string \<open>s\<close> and every cache with a capacity greater
  than zero whose byte array has the \<open>ceil(capacity / 8)\<close> bytes of the data model,
  \<open>test(s)\<close> is true immediately after \<open>add(s)\<close> and stays true after any further
  sequence of \<open>add\<close> calls. For every cache, a string that tests true stays true after
  any sequence of \<open>add\<close> calls: no bit is ever unset. Every cache made by the
  constructor has these bytes, and keeps them through any sequence of \<open>add\<close> calls.
\<close>

theorem add_then_test:
  "(allocated b \<and> 0 < bitmap_size b
      \<longrightarrow> test (add s b) s \<and> test (fold add vs (add s b)) s)
   \<and> (test c x \<longrightarrow> test (fold add ws c) x)
   \<and> (Bitmap arg = Inr built \<longrightarrow> allocated (fold add us built))"
proof -
  have first: "test (add s b) s \<and> test (fold add vs (add s b)) s"
    if "allocated b \<and> 0 < bitmap_size b"
    using that by (simp add: test_add_same test_fold_add_mono)
  have mono: "test (fold add ws c) x" if "test c x"
    using that by (rule test_fold_add_mono)
  have made: "allocated (fold add us built)" if "Bitmap arg = Inr built"
    using that by (intro allocated_fold_add Bitmap_allocated)
  from first mono made show ?thesis
    by blast
qed

theorem add_then_test_witness:
  "Bitmap (Some 16) = Inr \<lparr>bitmap_size = 16, bitmap_bits = [0, 0]\<rparr>
   \<and> allocated \<lparr>bitmap_size = 16, bitmap_bits = [0, 0]\<rparr>
   \<and> 0 < bitmap_size \<lparr>bitmap_size = 16, bitmap_bits = [0, 0]\<rparr>
   \<and> test (add (charCodes ''ab'') \<lparr>bitmap_size = 16, bitmap_bits = [0, 0]\<rparr>) (charCodes ''ab'')
   \<and> test (fold add [charCodes ''cd'', charCodes ''ef'']
             (add (charCodes ''ab'') \<lparr>bitmap_size = 16, bitmap_bits = [0, 0]\<rparr>))
         (charCodes ''ab'')
   \<and> allocated (fold add [charCodes ''cd''] \<lparr>bitmap_size = 16, bitmap_bits = [0, 0]\<rparr>)"
proof -
  have c: "Bitmap (Some 16) = Inr \<lparr>bitmap_size = 16, bitmap_bits = [0, 0]\<rparr>"
    by (simp add: Bitmap_def numeral_2_eq_2)
  have a: "allocated \<lparr>bitmap_size = 16, bitmap_bits = [0, 0]\<rparr>"
    by (simp add: allocated_def)
  have p: "0 < bitmap_size \<lparr>bitmap_size = 16, bitmap_bits = [0, 0]\<rparr>"
    by simp
  note t = add_then_test [where b = "\<lparr>bitmap_size = 16, bitmap_bits = [0, 0]\<rparr>"
      and s = "charCodes ''ab''" and vs = "[charCodes ''cd'', charCodes ''ef'']"
      and c = "add (charCodes ''ab'') \<lparr>bitmap_size = 16, bitmap_bits = [0, 0]\<rparr>"
      and x = "charCodes ''ab''" and ws = "[charCodes ''cd'', charCodes ''ef'']"
      and arg = "Some 16" and built = "\<lparr>bitmap_size = 16, bitmap_bits = [0, 0]\<rparr>"
      and us = "[charCodes ''cd'']"]
  from c a p t show ?thesis
    by blast
qed

lemma deserialize_serialize: 
  assumes "Bitmap (Some (bitmap_size b)) \<noteq> Inl RangeError"
  shows "deserialize (Some (serialize b)) = Inr b"
proof -
  have "map word_of_int (map uint (bitmap_bits b)) = bitmap_bits b"
    by (simp add: map_idI)
  with assms show ?thesis
    by (auto simp: deserialize_def serialize_def Bitmap_def Uint8Array_from_def Let_def
        split: if_splits)
qed

text \<open>
  Claim C5. For every cache (any capacity the constructor accepts, any byte contents,
  hence after any sequence of \<open>add\<close> calls), deserializing its serialized form gives a
  cache with the same capacity and the same \<open>test\<close> result for every string.
\<close>

theorem serialize_roundtrip:
  assumes "Bitmap (Some (bitmap_size b)) \<noteq> Inl RangeError"
  shows "\<exists>b'. deserialize (Some (serialize b)) = Inr b'
           \<and> bitmap_size b' = bitmap_size b
           \<and> (\<forall>x. test b' x = test b x)"
  using deserialize_serialize [OF assms] by simp

theorem serialize_roundtrip_witness:
  "Bitmap (Some 16) \<noteq> Inl RangeError
   \<and> (\<exists>b'. deserialize (Some (serialize (add (charCodes ''ab'') \<lparr>bitmap_size = 16, bitmap_bits = [0, 0]\<rparr>))) = Inr b'
         \<and> bitmap_size b' = 16
         \<and> (\<forall>x. test b' x = test (add (charCodes ''ab'') \<lparr>bitmap_size = 16, bitmap_bits = [0, 0]\<rparr>) x))"
proof -
  have c: "Bitmap (Some (bitmap_size (add (charCodes ''ab'') \<lparr>bitmap_size = 16, bitmap_bits = [0, 0]\<rparr>)))
           \<noteq> Inl RangeError"
    by (simp add: Bitmap_def)
  from c serialize_roundtrip [OF c] show ?thesis
    by simp
qed




text \<open>
  Claim C6. For every string (any list of UTF-16 code units) and every capacity greater
  than zero, the hash of the cache (shift, subtract, add the code unit, \<open>hash & hash\<close>,
  then the absolute value modulo the size) is the reference hash
  \<open>hash * 31 + charCode\<close> wrapped to signed 32 bits at each step, and it is an index
  below the capacity.
\<close>

theorem hash_refines_spec:
  assumes "0 < bitmap_size b"
  shows "\<exists>index. hash b v = Some index
           \<and> int index = hash_spec (bitmap_size b) v
           \<and> int index < bitmap_size b"
  using assms by (simp add: hash_def hash_spec_def hash_loop_spec)

theorem hash_refines_spec_witness:
  "0 < bitmap_size \<lparr>bitmap_size = 1000, bitmap_bits = replicate 125 0\<rparr>
   \<and> hash \<lparr>bitmap_size = 1000, bitmap_bits = replicate 125 0\<rparr> (charCodes ''ab'') = Some 105
   \<and> hash_spec 1000 (charCodes ''ab'') = 105"
proof -
  have h: "0 < bitmap_size \<lparr>bitmap_size = 1000, bitmap_bits = replicate 125 0\<rparr>"
    by simp
  have "hash_spec 1000 (charCodes ''ab'') = 105"
    by (simp add: hash_spec_def ToInt32_def charCodes_def)
  with hash_refines_spec [OF h, of "charCodes ''ab''"] h show ?thesis
    by auto
qed

section \<open>Properties of the pattern grammar\<close>

lemma startsWith_single: "startsWith s [a] = (s \<noteq> [] \<and> hd s = a)"
  by (cases s) (simp_all add: startsWith_def)

lemma endsWith_single: "endsWith s [a] = (s \<noteq> [] \<and> last s = a)"
proof (cases s rule: rev_cases)
  case Nil
  then show ?thesis by (simp add: endsWith_def)
next
  case (snoc xs x)
  then show ?thesis by (simp add: endsWith_def)
qed

lemma startsWith_pair: "startsWith s [a, b] = (\<exists>t. s = a # b # t)"
  by (cases s rule: list.exhaust; simp add: startsWith_def; cases "tl s"; auto)

lemma str_includes_pair_append:
  "str_includes (xs @ ys) [a, b] =
     (str_includes xs [a, b] \<or> str_includes ys [a, b]
      \<or> (xs \<noteq> [] \<and> ys \<noteq> [] \<and> last xs = a \<and> hd ys = b))"
proof (induction xs)
  case Nil
  then show ?case by simp
next
  case (Cons x xs)
  show ?case
  proof (cases xs)
    case Nil
    then show ?thesis
      by (cases ys) (auto simp: startsWith_pair)
  next
    case (Cons x' xs')
    with Cons.IH show ?thesis
      by (auto simp: startsWith_pair)
  qed
qed

lemma str_includes_pair_mem: "str_includes s [a, b] \<Longrightarrow> a \<in> set s"
  by (induction s) (auto simp: startsWith_pair)

lemma of_char_toLowerCase_char:
  "(of_char (toLowerCase_char c) :: nat) =
     (let n = of_char c in
      if (65 \<le> n \<and> n \<le> 90) \<or> (192 \<le> n \<and> n \<le> 222 \<and> n \<noteq> 215) then n + 32 else n)"
  by (auto simp: toLowerCase_char_def Let_def)

lemma toLowerCase_char_hyphen: "toLowerCase_char c = CHR ''-'' \<Longrightarrow> c = CHR ''-''"
proof -
  assume a: "toLowerCase_char c = CHR ''-''"
  have "(of_char (toLowerCase_char c) :: nat) = 45"
    by (simp add: a)
  then have "(of_char c :: nat) = 45"
    by (simp add: of_char_toLowerCase_char Let_def split: if_splits)
  then have "(of_char c :: nat) = of_char CHR ''-''"
    by simp
  then show ?thesis
    by (simp only: of_char_eq_iff)
qed

lemma toLowerCase_char_digit: "is_digit c \<Longrightarrow> toLowerCase_char c = c"
  by (simp add: toLowerCase_char_def is_digit_def Let_def)




lemmas eval_simps = toLowerCase_def toLowerCase_char_def char_of_def bit_Suc_0_iff

lemma alphabet_ok_split_chars:
  "s \<noteq> [] \<Longrightarrow> distinct s \<Longrightarrow> alphabet_ok (split_chars s)"
  by (auto simp: alphabet_ok_def split_chars_def distinct_map inj_on_def hd_map)

lemma ALL_CHARS_eq: "ALL_CHARS = split_chars ''abcdefghijklmnopqrstuvwxyz0123456789-''"
  by (simp add: ALL_CHARS_def LETTERS_def split_chars_def)

lemma alphabet_ok_CONSONANTS: "alphabet_ok CONSONANTS"
  unfolding CONSONANTS_def by (rule alphabet_ok_split_chars) simp_all

lemma alphabet_ok_VOWELS: "alphabet_ok VOWELS"
  unfolding VOWELS_def by (rule alphabet_ok_split_chars) simp_all

lemma alphabet_ok_NUMBERS: "alphabet_ok NUMBERS"
  unfolding NUMBERS_def by (rule alphabet_ok_split_chars) simp_all

lemma alphabet_ok_LETTERS: "alphabet_ok LETTERS"
  unfolding LETTERS_def by (rule alphabet_ok_split_chars) simp_all

lemma alphabet_ok_ALL_CHARS: "alphabet_ok ALL_CHARS"
  unfolding ALL_CHARS_eq by (rule alphabet_ok_split_chars) simp_all

lemma alphabet_ok_hyphen: "alphabet_ok [''-'']"
  by (simp add: alphabet_ok_def)

lemma toLowerCase_no_hyphen: "CHR ''-'' \<notin> set s \<Longrightarrow> CHR ''-'' \<notin> set (toLowerCase s)"
  by (auto simp: toLowerCase_def dest: toLowerCase_char_hyphen [OF sym])

lemma alphabet_ok_literal:
  "s \<noteq> [] \<Longrightarrow> CHR ''-'' \<notin> set s \<Longrightarrow> alphabet_ok [toLowerCase s]"
  using toLowerCase_no_hyphen [of s] by (simp add: alphabet_ok_def toLowerCase_def)

lemma processLiteral_inv:
  assumes "list_all part_ok (fst st)" and "CHR ''-'' \<notin> set (snd st)"
  shows "list_all part_ok (fst (processLiteral st)) \<and> snd (processLiteral st) = []"
  using assms
  by (cases st) (auto simp: processLiteral_def part_ok_def alphabet_ok_literal)

lemma push_inv:
  assumes "list_all part_ok (fst st)" and "part_ok part"
  shows "list_all part_ok (fst (push part st))" and "snd (push part st) = snd st"
  using assms by (simp_all add: push_def)

lemma toLowerCase_single: "toLowerCase [c] = [toLowerCase_char c]"
  by (simp add: toLowerCase_def)

lemma parse_loop_inv:
  assumes "list_all part_ok (fst st)" and "CHR ''-'' \<notin> set (snd st)"
  shows "list_all part_ok (fst (parse_loop s st)) \<and> CHR ''-'' \<notin> set (snd (parse_loop s st))"
  using assms
proof (induction s arbitrary: st)
  case Nil
  then show ?case by simp
next
  case (Cons char rest)
  note pl = processLiteral_inv [OF Cons.prems]
  have special: "part_ok part \<Longrightarrow>
       list_all part_ok (fst (parse_loop rest (push part (processLiteral st))))
       \<and> CHR ''-'' \<notin> set (snd (parse_loop rest (push part (processLiteral st))))" for part
    using pl by (intro Cons.IH) (simp_all add: push_def)
  have plain: "char \<noteq> CHR ''-'' \<Longrightarrow>
       list_all part_ok (fst (parse_loop rest (fst st, snd st @ [char])))
       \<and> CHR ''-'' \<notin> set (snd (parse_loop rest (fst st, snd st @ [char])))"
    using Cons.prems by (intro Cons.IH) simp_all
  have c: "part_ok \<lparr>part_type = ''c'', part_value = None,
                     possibilities = Some CONSONANTS, isWildcard = None\<rparr>"
    by (simp add: part_ok_def alphabet_ok_CONSONANTS)
  have v: "part_ok \<lparr>part_type = ''v'', part_value = None,
                     possibilities = Some VOWELS, isWildcard = None\<rparr>"
    by (simp add: part_ok_def alphabet_ok_VOWELS)
  have n: "part_ok \<lparr>part_type = ''n'', part_value = None,
                     possibilities = Some NUMBERS, isWildcard = None\<rparr>"
    by (simp add: part_ok_def alphabet_ok_NUMBERS)
  have l: "part_ok \<lparr>part_type = ''l'', part_value = None,
                     possibilities = Some LETTERS, isWildcard = None\<rparr>"
    by (simp add: part_ok_def alphabet_ok_LETTERS)
  have w: "part_ok \<lparr>part_type = ''wildcard'', part_value = None,
                     possibilities = Some ALL_CHARS, isWildcard = Some True\<rparr>"
    by (simp add: part_ok_def alphabet_ok_ALL_CHARS)
  have h: "part_ok \<lparr>part_type = ''-'', part_value = None,
                     possibilities = Some [''-''], isWildcard = None\<rparr>"
    by (simp add: part_ok_def alphabet_ok_hyphen)
  show ?case
    using special [OF c] special [OF v] special [OF n] special [OF l] special [OF w]
      special [OF h] plain
    by (simp add: Let_def toLowerCase_single)
qed

lemma parsePattern_ok: "list_all part_ok (parsePattern p)"
proof -
  have "list_all part_ok (fst (parse_loop p ([], []))) \<and> CHR ''-'' \<notin> set (snd (parse_loop p ([], [])))"
    by (rule parse_loop_inv) simp_all
  then show ?thesis
    unfolding parsePattern_def using processLiteral_inv by blast
qed


lemma validateExtensions_loop_find:
  assumes "\<forall>ext\<in>set extensions. startsWith ext ''.'' \<and> 2 \<le> length ext"
  shows "validateExtensions_loop extensions =
           (case find (\<lambda>ext. \<not> test_ext_format ext) extensions of
              Some ext \<Rightarrow> Some (''Invalid extension format: '' @ ext)
            | None \<Rightarrow> None)"
  using assms by (induction extensions) auto

text \<open>
  Claim C8, as amended. For every extension list whose elements all start with a dot and
  have at least two characters, \<open>validateExtensions\<close> returns the format error for the
  first element that does not match the code's expression \<open>^[.a-z0-9]+$\<close> (for example
  \<open>.COM\<close>), and returns \<open>null\<close> only when every element matches it. Every string
  that matches \<open>^\.[a-z0-9]+$\<close> matches the code's expression, which also admits
  further dots, as in \<open>.co.uk\<close>.
\<close>

theorem validateExtensions_format:
  assumes "\<forall>ext\<in>set extensions. startsWith ext ''.'' \<and> 2 \<le> length ext"
  shows "validateExtensions extensions =
           (if extensions = [] then Some ''At least one extension is required''
            else case find (\<lambda>ext. \<not> test_ext_format ext) extensions of
                   Some ext \<Rightarrow> Some (''Invalid extension format: '' @ ext)
                 | None \<Rightarrow> None)
         \<and> (validateExtensions extensions = None \<longrightarrow> list_all test_ext_format extensions)
         \<and> (list_all spec_ext_format extensions \<longrightarrow> list_all test_ext_format extensions)"
proof -
  have a: "validateExtensions extensions =
           (if extensions = [] then Some ''At least one extension is required''
            else case find (\<lambda>ext. \<not> test_ext_format ext) extensions of
                   Some ext \<Rightarrow> Some (''Invalid extension format: '' @ ext)
                 | None \<Rightarrow> None)"
    by (simp add: validateExtensions_def validateExtensions_loop_find [OF assms])
  have b: "list_all test_ext_format extensions" if "validateExtensions extensions = None"
    using that unfolding a
    by (auto simp: find_None_iff list_all_iff split: if_splits option.splits)
  have "test_ext_format ext" if "spec_ext_format ext" for ext
    using that
    by (cases ext) (auto simp: spec_ext_format_def test_ext_format_def ext_char_def list_all_iff)
  then have c: "list_all test_ext_format extensions" if "list_all spec_ext_format extensions"
    using that by (auto simp: list_all_iff)
  from a b c show ?thesis by blast
qed

text \<open>
  Claim C8 as stated fails: \<open>.co.uk\<close> does not match \<open>^\.[a-z0-9]+$\<close> and is
  accepted.
\<close>

theorem validateExtensions_format_counterexample:
  "startsWith ''.co.uk'' ''.'' \<and> 2 \<le> length ''.co.uk''
   \<and> \<not> spec_ext_format ''.co.uk''
   \<and> validateExtensions [''.co.uk''] = None"
  by (simp add: validateExtensions_def test_ext_format_def ext_char_def is_digit_def
      startsWith_def spec_ext_format_def)

theorem validateExtensions_format_witness:
  "startsWith ''.com'' ''.'' \<and> 2 \<le> length ''.com''
   \<and> startsWith ''.COM'' ''.'' \<and> 2 \<le> length ''.COM''
   \<and> validateExtensions [''.com'', ''.COM''] = Some ''Invalid extension format: .COM''
   \<and> validateExtensions [''.co.uk'', ''.io''] = None
   \<and> list_all test_ext_format [''.co.uk'', ''.io'']"
proof -
  have s: "startsWith ''.com'' ''.'' \<and> 2 \<le> length ''.com''
           \<and> startsWith ''.COM'' ''.'' \<and> 2 \<le> length ''.COM''"
    by (simp add: startsWith_def)
  then have h1: "\<forall>ext\<in>set [''.com'', ''.COM'']. startsWith ext ''.'' \<and> 2 \<le> length ext"
    by simp
  have h2: "\<forall>ext\<in>set [''.co.uk'', ''.io'']. startsWith ext ''.'' \<and> 2 \<le> length ext"
    by (simp add: startsWith_def)
  have t: "test_ext_format ''.com''" "\<not> test_ext_format ''.COM''"
    "test_ext_format ''.co.uk''" "test_ext_format ''.io''"
    by (simp_all add: test_ext_format_def ext_char_def is_digit_def)
  from s validateExtensions_format [OF h1] validateExtensions_format [OF h2] t show ?thesis
    by simp
qed


section \<open>Properties of the combination generator\<close>

lemma test_has_digit_hd: "u \<noteq> [] \<Longrightarrow> \<not> test_has_digit u \<Longrightarrow> \<not> is_digit (hd u)"
  by (cases u) (simp_all add: test_has_digit_def)

lemma test_starts_with_digit_hd: "test_starts_with_digit s = (s \<noteq> [] \<and> is_digit (hd s))"
  by (cases s) (simp_all add: test_starts_with_digit_def)

lemma hyphen_unit: "u \<noteq> [] \<Longrightarrow> u = ''-'' \<or> CHR ''-'' \<notin> set u \<Longrightarrow> hd u = CHR ''-'' \<or> last u = CHR ''-'' \<Longrightarrow> u = ''-''"
  by (metis hd_in_set last_in_set)

lemma decode_inv_step:
  assumes inv: "decode_inv result lastChar"
    and u: "u \<noteq> []" "u = ''-'' \<or> CHR ''-'' \<notin> set u"
    and first: "\<not> (length result = 0 \<and> (Some u = Some ''-'' \<or> test_has_digit u))"
    and double: "\<not> (Some u = Some ''-'' \<and> lastChar = Some ''-'')"
  shows "decode_inv (result @ u) (Some u)"
proof -
  have no_inner: "\<not> str_includes u ''--''"
    using u by (auto simp: startsWith_def dest: str_includes_pair_mem)
  have boundary: "\<not> (result \<noteq> [] \<and> last result = CHR ''-'' \<and> hd u = CHR ''-'')"
  proof
    assume a: "result \<noteq> [] \<and> last result = CHR ''-'' \<and> hd u = CHR ''-''"
    then have "lastChar = Some ''-''" using inv by (simp add: decode_inv_def)
    moreover from a u have "u = ''-''" by (auto intro: hyphen_unit)
    ultimately show False using double by simp
  qed
  have c1: "\<not> str_includes (result @ u) ''--''"
    using inv no_inner boundary u(1) by (auto simp: str_includes_pair_append decode_inv_def)
  have c2: "hd (result @ u) \<noteq> CHR ''-'' \<and> \<not> is_digit (hd (result @ u))"
  proof (cases "result = []")
    case True
    with first have nh: "u \<noteq> ''-''" and nd: "\<not> test_has_digit u" by simp_all
    from nh u have "hd u \<noteq> CHR ''-''" by (cases u) auto
    with True nd u(1) show ?thesis by (simp add: test_has_digit_hd)
  next
    case False
    with inv show ?thesis by (simp add: decode_inv_def)
  qed
  have c3: "last (result @ u) = CHR ''-'' \<longrightarrow> u = ''-''"
    using u by (auto intro: hyphen_unit)
  from c1 c2 c3 show ?thesis
    by (simp add: decode_inv_def)
qed

lemma decode_loop_pruned:
  assumes "list_all part_ok ps" and "decode_inv result lastChar"
    and "decode_loop ps (Some c) result lastChar = Yield s"
  shows "pruned s"
  using assms
proof (induction ps arbitrary: c result lastChar)
  case Nil
  then show ?case
    by (auto simp: pruned_def decode_inv_def startsWith_single test_starts_with_digit_hd
        split: if_splits)
next
  case (Cons part rest)
  from Cons.prems(1) obtain poss where poss: "possibilities part = Some poss" "alphabet_ok poss"
    by (auto simp: part_ok_def split: option.splits)
  define u where "u = poss ! (c mod length poss)"
  from poss(2) have len: "length poss \<noteq> 0" by (simp add: alphabet_ok_def)
  then have "u \<in> set poss" by (simp add: u_def)
  with poss(2) have u: "u \<noteq> []" "u = ''-'' \<or> CHR ''-'' \<notin> set u"
    by (auto simp: alphabet_ok_def)
  from Cons.prems(3) poss len
  have first: "\<not> (length result = 0 \<and> (Some u = Some ''-'' \<or> test_has_digit u))"
    and double: "\<not> (Some u = Some ''-'' \<and> lastChar = Some ''-'')"
    and rest: "decode_loop rest (Some (c div length poss)) (result @ u) (Some u) = Yield s"
    by (auto simp: modulo_current_def floor_divide_def ToString_def u_def Let_def
        split: if_splits)
  from Cons.prems(2) u first double have "decode_inv (result @ u) (Some u)"
    by (rule decode_inv_step)
  with Cons.IH [OF _ _ rest] Cons.prems(1) show ?case
    by simp
qed

lemma decode_pruned: "list_all part_ok ps \<Longrightarrow> decode ps i = Yield s \<Longrightarrow> pruned s"
  unfolding decode_def by (rule decode_loop_pruned) (simp_all add: decode_inv_def)

lemma emit_from_decode:
  "s \<in> set (fst (emit ps indices)) \<Longrightarrow> \<exists>i\<in>set indices. decode ps i = Yield s"
  by (induction indices) (auto split: decoded.splits prod.splits)

lemma generateCombinations_from_decode:
  assumes "s \<in> set (fst (generateCombinations pick ps))"
  shows "\<exists>i. decode ps i = Yield s"
  using assms
  by (auto simp: generateCombinations_def split: number.splits if_splits
      dest!: emit_from_decode)

lemma shuffle_loop_mset:
  assumes "pick_valid pick" and "k < length xs \<or> k = 0"
  shows "mset (shuffle_loop pick k xs) = mset xs"
  using assms(2)
proof (induction k arbitrary: xs)
  case 0
  then show ?case by simp
next
  case (Suc k)
  then have i: "Suc k < length xs" by simp
  from assms(1) have "pick (Suc k) \<le> Suc k" by (simp add: pick_valid_def)
  with i have j: "pick (Suc k) < length xs" by simp
  have "mset (xs[Suc k := xs ! pick (Suc k), pick (Suc k) := xs ! Suc k]) = mset xs"
    using j i by (rule mset_swap)
  moreover have "mset (shuffle_loop pick k (xs[Suc k := xs ! pick (Suc k), pick (Suc k) := xs ! Suc k]))
      = mset (xs[Suc k := xs ! pick (Suc k), pick (Suc k) := xs ! Suc k])"
    using i by (intro Suc.IH) simp
  ultimately show ?case by (simp add: Let_def)
qed

lemma shuffleArray_mset: "pick_valid pick \<Longrightarrow> mset (shuffleArray pick xs) = mset xs"
  unfolding shuffleArray_def by (rule shuffle_loop_mset) (cases xs; simp)+

lemma decode_loop_units:
  assumes "list_all part_ok ps"
  shows "decode_loop ps (Some c) result lastChar \<noteq> Throw e
       \<and> (decode_loop ps (Some c) result lastChar = Yield s \<longrightarrow> s = result @ units ps c)"
  using assms
proof (induction ps arbitrary: c result lastChar)
  case Nil
  then show ?case by simp
next
  case (Cons part rest)
  from Cons.prems obtain poss where poss: "possibilities part = Some poss" "alphabet_ok poss"
    by (auto simp: part_ok_def split: option.splits)
  from poss(2) have len: "length poss \<noteq> 0" by (simp add: alphabet_ok_def)
  from Cons.prems have rest: "list_all part_ok rest" by simp
  note IH = Cons.IH [OF rest, of "c div length poss" "result @ poss ! (c mod length poss)"
      "Some (poss ! (c mod length poss))"]
  with poss(1) len show ?case
    by (simp add: modulo_current_def floor_divide_def ToString_def Let_def)
qed

lemma decode_no_throw: "list_all part_ok ps \<Longrightarrow> decode ps i \<noteq> Throw e"
  using decode_loop_units [of ps i "[]" "Some []" e] by (simp add: decode_def)

lemma decode_yield_units: "list_all part_ok ps \<Longrightarrow> decode ps i = Yield s \<Longrightarrow> s = units ps i"
  using decode_loop_units [of ps i "[]" "Some []" _ s] by (simp add: decode_def)

lemma emit_map_filter:
  assumes "list_all part_ok ps"
  shows "emit ps indices = (List.map_filter (yield_of ps) indices, None)"
proof (induction indices)
  case Nil
  then show ?case by (simp add: List.map_filter_simps)
next
  case (Cons i indices)
  show ?case
  proof (cases "decode ps i")
    case (Yield s)
    with Cons show ?thesis by (simp add: List.map_filter_simps yield_of_def)
  next
    case Skip
    with Cons show ?thesis by (simp add: List.map_filter_simps yield_of_def)
  next
    case (Throw e)
    with decode_no_throw [OF assms, of i e] show ?thesis by simp
  qed
qed

lemma units_inj:
  assumes "list_all part_ok ps" and "c < combinationCount ps" and "c' < combinationCount ps"
    and "units ps c = units ps c'"
  shows "c = c'"
  using assms
proof (induction ps arbitrary: c c')
  case Nil
  then show ?case by (simp add: combinationCount_def)
next
  case (Cons part rest)
  from Cons.prems(1) obtain poss where poss: "possibilities part = Some poss" "alphabet_ok poss"
    by (auto simp: part_ok_def split: option.splits)
  let ?n = "length poss"
  from poss(2) have len: "0 < ?n" by (simp add: alphabet_ok_def)
  have cc: "combinationCount (part # rest) = ?n * combinationCount rest"
    by (simp add: combinationCount_def alphabet_size_def poss(1))
  have m: "c mod ?n < ?n" "c' mod ?n < ?n" using len by simp_all
  then have mem: "poss ! (c mod ?n) \<in> set poss" "poss ! (c' mod ?n) \<in> set poss"
    by simp_all
  from poss(2) have uniform: "u \<in> set poss \<Longrightarrow> length u = length (hd poss)" for u
    unfolding alphabet_ok_def by blast
  from uniform [OF mem(1)] uniform [OF mem(2)]
  have "length (poss ! (c mod ?n)) = length (poss ! (c' mod ?n))"
    by (rule trans [OF _ sym])
  with Cons.prems(4) poss(1)
  have eq: "poss ! (c mod ?n) = poss ! (c' mod ?n)" "units rest (c div ?n) = units rest (c' div ?n)"
    by simp_all
  from poss(2) have "distinct poss" by (simp add: alphabet_ok_def)
  with eq(1) m have modeq: "c mod ?n = c' mod ?n"
    by (simp add: nth_eq_iff_index_eq)
  have "c div ?n < combinationCount rest" "c' div ?n < combinationCount rest"
    using Cons.prems(2,3) cc by (simp_all add: less_mult_imp_div_less mult.commute)
  with Cons.IH [OF _ _ _ eq(2)] Cons.prems(1) have diveq: "c div ?n = c' div ?n"
    by simp
  from modeq diveq show ?case
    by (metis div_mult_mod_eq)
qed

lemma yield_of_inj:
  assumes "list_all part_ok ps"
  shows "inj_on (yield_of ps) {i. i < combinationCount ps \<and> yield_of ps i \<noteq> None}"
proof (rule inj_onI)
  fix i j
  assume i: "i \<in> {i. i < combinationCount ps \<and> yield_of ps i \<noteq> None}"
    and j: "j \<in> {i. i < combinationCount ps \<and> yield_of ps i \<noteq> None}"
    and eq: "yield_of ps i = yield_of ps j"
  from i obtain s where s: "decode ps i = Yield s"
    by (auto simp: yield_of_def split: decoded.splits)
  with eq have s': "decode ps j = Yield s"
    by (auto simp: yield_of_def split: decoded.splits)
  from decode_yield_units [OF assms s] decode_yield_units [OF assms s']
  have "units ps i = units ps j"
    by simp
  with assms i j show "i = j"
    by (auto intro: units_inj)
qed

lemma distinct_map_filter:
  assumes "distinct xs" and "inj_on f {x \<in> set xs. f x \<noteq> None}"
  shows "distinct (List.map_filter f xs)"
proof -
  have "distinct (map (the \<circ> f) (filter (\<lambda>x. f x \<noteq> None) xs))"
  proof (rule distinct_map [THEN iffD2], intro conjI)
    show "distinct (filter (\<lambda>x. f x \<noteq> None) xs)" using assms(1) by simp
    show "inj_on (the \<circ> f) (set (filter (\<lambda>x. f x \<noteq> None) xs))"
      using assms(2) by (auto simp: inj_on_def)
  qed
  then show ?thesis by (simp add: List.map_filter_def)
qed

lemma parse_v: "parsePattern ''v'' = [\<lparr>part_type = ''v'', part_value = None, possibilities = Some VOWELS, isWildcard = None\<rparr>]"
  by (simp add: parsePattern_def eval_simps push_def processLiteral_def)

lemma total_v: "totalCombinations (parsePattern ''v'') = Num 5"
  by (simp add: parse_v totalCombinations_def length_or_1_def VOWELS_def split_chars_def round_double_def)

lemma shuffle_5: "shuffleArray pick_zero [0..<5] = [1, 2, 3, 4, 0]"
  by (simp add: shuffleArray_def pick_zero_def eval_nat_numeral upt_rec)

lemma gen_v: "generateCombinations pick_zero (parsePattern ''v'') = ([''e'', ''i'', ''o'', ''u'', ''a''], None)"
  unfolding generateCombinations_def total_v
  apply (simp add: shuffle_5)
  apply (simp add: parse_v decode_def VOWELS_def split_chars_def modulo_current_def floor_divide_def ToString_def
     test_has_digit_def is_digit_def endsWith_def test_starts_with_digit_def)
  done

text \<open>
  Claim C1. For every pattern string \<open>p\<close> and every outcome of the shuffle, every
  candidate emitted by \<open>generateCombinations(parsePattern(p))\<close> satisfies the four
  pruning rules: it does not start with a hyphen, does not start with a digit, does not
  contain two hyphens in a row and does not end with a hyphen.
\<close>

theorem generated_candidates_pruned:
  assumes "c \<in> set (fst (generateCombinations pick (parsePattern p)))"
  shows "\<not> startsWith c ''-'' \<and> \<not> test_starts_with_digit c
         \<and> \<not> str_includes c ''--'' \<and> \<not> endsWith c ''-''"
proof -
  from assms obtain i where "decode (parsePattern p) i = Yield c"
    by (auto dest: generateCombinations_from_decode)
  with parsePattern_ok [of p] have "pruned c"
    by (rule decode_pruned)
  then show ?thesis
    by (simp add: pruned_def)
qed

theorem generated_candidates_pruned_witness:
  "''e'' \<in> set (fst (generateCombinations pick_zero (parsePattern ''v'')))
   \<and> \<not> startsWith ''e'' ''-'' \<and> \<not> test_starts_with_digit ''e''
   \<and> \<not> str_includes ''e'' ''--'' \<and> \<not> endsWith ''e'' ''-''"
proof -
  have m: "''e'' \<in> set (fst (generateCombinations pick_zero (parsePattern ''v'')))"
    by (simp add: gen_v)
  from m generated_candidates_pruned [OF m] show ?thesis
    by (rule conjI)
qed

section \<open>Properties of the counts\<close>

lemma round_double_small: "x < 2 ^ 53 \<Longrightarrow> round_double x = x"
  by (simp add: round_double_def)

lemma round_double_ge:
  assumes "2 ^ 53 \<le> x"
  shows "2 ^ 53 \<le> round_double x"
proof -
  define e where "e = floorlog 2 x - 53"
  define q where "q = x div 2 ^ e"
  have L: "Suc 53 \<le> floorlog 2 x"
    using assms by (intro floorlog_ge_SucI) simp_all
  then have e: "1 \<le> e" and Le: "floorlog 2 x - 1 = 52 + e"
    by (simp_all add: e_def)
  from assms have "0 < x"
    by (auto intro: less_le_trans [of 0 "2 ^ 53" x])
  then have "(2::nat) ^ (floorlog 2 x - 1) \<le> x"
    using floorlog_bounds [of x 2] by simp
  then have "(2::nat) ^ 52 * 2 ^ e \<le> x"
    by (simp only: Le power_add)
  then have q: "2 ^ 52 \<le> q"
    by (simp add: q_def less_eq_div_iff_mult_less_eq)
  have "(2::nat) ^ 53 = 2 ^ 52 * 2 ^ 1" by simp
  also have "\<dots> \<le> 2 ^ 52 * 2 ^ e"
    using e by (intro mult_le_mono2 power_increasing) simp_all
  also have "\<dots> \<le> q * 2 ^ e"
    using q by (rule mult_le_mono1)
  finally have low: "2 ^ 53 \<le> q * 2 ^ e" .
  have "q * 2 ^ e \<le> round_double x"
    using assms by (simp add: round_double_def Let_def e_def q_def)
  with low show ?thesis by (rule le_trans)
qed

lemma round_double_less_iff: "round_double x < 2 ^ 53 \<longleftrightarrow> x < 2 ^ 53"
  using round_double_ge [of x] round_double_small [of x]
  by (metis linorder_not_less)

lemma times_number_exact:
  "x * y < 2 ^ 53 \<Longrightarrow> times_number (Num x) (Num y) = Num (x * y)"
proof -
  assume a: "x * y < 2 ^ 53"
  have "(2::nat) ^ 53 < 2 ^ 1024" by simp
  with a have "x * y < 2 ^ 1024" by (rule less_trans)
  with a show ?thesis
    by (simp add: round_double_small Let_def)
qed

lemma times_number_Num_D:
  assumes "times_number a (Num y) = Num t" and "t < 2 ^ 53"
  shows "\<exists>x. a = Num x \<and> x * y = t"
proof (cases a)
  case (Num x)
  with assms(1) have r: "round_double (x * y) = t"
    by (simp add: Let_def split: if_splits)
  from r assms(2) have "round_double (x * y) < 2 ^ 53"
    by (simp only:)
  then have "x * y < 2 ^ 53"
    by (simp only: round_double_less_iff)
  with r Num show ?thesis
    by (simp add: round_double_small)
next
  case Infinity
  with assms(1) show ?thesis by (simp split: if_splits)
next
  case NaN
  with assms(1) show ?thesis by simp
qed

text \<open>the product of a list of lengths, computed in doubles\<close>
lemma foldl_times_exact:
  assumes "\<forall>k\<in>set ks. 1 \<le> k" and "prod_list ks < 2 ^ 53"
  shows "foldl (\<lambda>acc k. times_number acc (Num k)) (Num 1) ks = Num (prod_list ks)"
  using assms
proof (induction ks rule: rev_induct)
  case Nil
  then show ?case by simp
next
  case (snoc k ks)
  from snoc.prems(1) have k: "1 \<le> k" by simp
  then have "prod_list ks \<le> prod_list (ks @ [k])" by simp
  from this snoc.prems(2) have "prod_list ks < 2 ^ 53" by (rule le_less_trans)
  with snoc have IH: "foldl (\<lambda>acc k. times_number acc (Num k)) (Num 1) ks = Num (prod_list ks)"
    by simp
  from snoc.prems(2) have "prod_list ks * k < 2 ^ 53"
    by simp
  then have "times_number (Num (prod_list ks)) (Num k) = Num (prod_list ks * k)"
    by (rule times_number_exact)
  with IH show ?case
    by (simp del: times_number.simps)
qed

lemma foldl_times_Num_D:
  assumes "\<forall>k\<in>set ks. 1 \<le> k"
    and "foldl (\<lambda>acc k. times_number acc (Num k)) (Num 1) ks = Num t" and "t < 2 ^ 53"
  shows "t = prod_list ks"
  using assms
proof (induction ks arbitrary: t rule: rev_induct)
  case Nil
  then show ?case by simp
next
  case (snoc k ks)
  from snoc.prems(1) have k: "1 \<le> k" by simp
  from snoc.prems(2) have "times_number (foldl (\<lambda>acc k. times_number acc (Num k)) (Num 1) ks) (Num k) = Num t"
    by simp
  from times_number_Num_D [OF this snoc.prems(3)]
  obtain x where x: "foldl (\<lambda>acc k. times_number acc (Num k)) (Num 1) ks = Num x" "x * k = t"
    by blast
  from k have "x \<le> x * k" by simp
  with x(2) snoc.prems(3) have "x < 2 ^ 53" by simp
  with snoc.IH [OF _ x(1)] snoc.prems(1) have "x = prod_list ks" by simp
  with x(2) show ?case by simp
qed

lemma part_ok_length: "part_ok part \<Longrightarrow> \<exists>poss. possibilities part = Some poss \<and> 1 \<le> length poss"
  by (cases "possibilities part") (auto simp: part_ok_def alphabet_ok_def Suc_le_eq)

lemma combinationCount_prod: "combinationCount ps = prod_list (map alphabet_size ps)"
  by (simp add: combinationCount_def)

lemma totalCombinations_foldl:
  assumes "list_all part_ok ps"
  shows "foldl (\<lambda>acc part. times_number acc (Num (length_or_1 part))) a ps
         = foldl (\<lambda>acc k. times_number acc (Num k)) a (map alphabet_size ps)"
  using assms
proof (induction ps arbitrary: a)
  case Nil
  then show ?case by simp
next
  case (Cons part rest)
  from Cons.prems have "part_ok part" by simp
  from part_ok_length [OF this] have "length_or_1 part = alphabet_size part"
    by (auto simp: length_or_1_def alphabet_size_def)
  with Cons show ?case by simp
qed

lemma count_step_foldl:
  assumes "list_all part_ok ps"
  shows "foldl count_step a ps = foldl (\<lambda>acc k. times_number acc (Num k)) a (map alphabet_size ps)"
  using assms
proof (induction ps arbitrary: a)
  case Nil
  then show ?case by simp
next
  case (Cons part rest)
  from Cons.prems have "part_ok part" by simp
  from part_ok_length [OF this] have "count_step a part = times_number a (Num (alphabet_size part))"
    by (auto simp: count_step_def alphabet_size_def)
  with Cons show ?case by simp
qed

lemma alphabet_sizes_pos: "list_all part_ok ps \<Longrightarrow> \<forall>k\<in>set (map alphabet_size ps). 1 \<le> k"
  by (auto simp: list_all_iff alphabet_size_def dest!: part_ok_length)

lemma totalCombinations_exact:
  assumes "list_all part_ok ps" and "totalCombinations ps = Num n" and "n < 2 ^ 53"
  shows "n = combinationCount ps"
  unfolding combinationCount_prod
  using assms(2) unfolding totalCombinations_def totalCombinations_foldl [OF assms(1)]
  by (rule foldl_times_Num_D [OF alphabet_sizes_pos [OF assms(1)] _ assms(3)])

lemma count_exact:
  assumes "list_all part_ok ps" and "combinationCount ps < 2 ^ 53"
  shows "foldl count_step (Num 1) ps = Num (combinationCount ps)"
  unfolding combinationCount_prod count_step_foldl [OF assms(1)]
  using assms(2) unfolding combinationCount_prod
  by (rule foldl_times_exact [OF alphabet_sizes_pos [OF assms(1)]])

lemma totalCombinations_exact_fwd:
  assumes "list_all part_ok ps" and "combinationCount ps < 2 ^ 53"
  shows "totalCombinations ps = Num (combinationCount ps)"
  unfolding combinationCount_prod totalCombinations_def totalCombinations_foldl [OF assms(1)]
  using assms(2) unfolding combinationCount_prod
  by (rule foldl_times_exact [OF alphabet_sizes_pos [OF assms(1)]])

lemma length_map_filter_le: "length (List.map_filter f xs) \<le> length xs"
  by (simp add: List.map_filter_def)

lemma emit_shuffled:
  assumes ok: "list_all part_ok ps" and pick: "pick_valid pick"
  shows "emit ps (shuffleArray pick [0..<combinationCount ps])
           = (List.map_filter (yield_of ps) (shuffleArray pick [0..<combinationCount ps]), None)"
    and "distinct (List.map_filter (yield_of ps) (shuffleArray pick [0..<combinationCount ps]))"
    and "length (List.map_filter (yield_of ps) (shuffleArray pick [0..<combinationCount ps]))
           \<le> combinationCount ps"
proof -
  let ?idx = "shuffleArray pick [0..<combinationCount ps]"
  have m: "mset ?idx = mset [0..<combinationCount ps]"
    using pick by (rule shuffleArray_mset)
  then have d: "distinct ?idx"
    by (metis distinct_upt mset_eq_imp_distinct_iff)
  from m have s: "set ?idx = {0..<combinationCount ps}"
    by (metis mset_eq_setD set_upt)
  from m have l: "length ?idx = combinationCount ps"
    by (metis mset_eq_length length_upt diff_zero)
  show "emit ps ?idx = (List.map_filter (yield_of ps) ?idx, None)"
    using ok by (rule emit_map_filter)
  have "inj_on (yield_of ps) {x \<in> set ?idx. yield_of ps x \<noteq> None}"
    by (rule inj_on_subset [OF yield_of_inj [OF ok]]) (auto simp: s)
  with d show "distinct (List.map_filter (yield_of ps) ?idx)"
    by (rule distinct_map_filter)
  show "length (List.map_filter (yield_of ps) ?idx) \<le> combinationCount ps"
    using length_map_filter_le [of "yield_of ps" ?idx] l by simp
qed

lemma shuffleArray_Nil: "shuffleArray pick [] = []"
  by (simp add: shuffleArray_def)

lemma generateCombinations_cases:
  assumes ok: "list_all part_ok ps"
  shows "generateCombinations pick ps = emit ps (shuffleArray pick [0..<combinationCount ps])
         \<or> fst (generateCombinations pick ps) = []"
proof (cases "totalCombinations ps")
  case (Num n)
  show ?thesis
  proof (cases "n \<le> 2 ^ 32 - 1")
    case True
    have "(2::nat) ^ 32 - 1 < 2 ^ 53" by simp
    with True have "n < 2 ^ 53" by (rule le_less_trans)
    with ok Num have "n = combinationCount ps" by (rule totalCombinations_exact)
    with Num True show ?thesis by (simp add: generateCombinations_def)
  next
    case False
    with Num show ?thesis by (simp add: generateCombinations_def)
  qed
next
  case Infinity
  then show ?thesis by (simp add: generateCombinations_def)
next
  case NaN
  then show ?thesis by (simp add: generateCombinations_def shuffleArray_Nil)
qed

text \<open>
  Claim C2. For every pattern and every outcome of the random choices of the shuffle,
  \<open>generateCombinations\<close> emits no string twice within one call and emits at most
  \<open>combinationCount\<close> strings (the product of the alphabet sizes); \<open>shuffleArray\<close>
  returns a permutation of its input; and, when the index space fits an array, the
  emitted strings are those yielded by the shuffled indices \<open>0, \<dots>, combinationCount - 1\<close>,
  each decoded once, the pruned ones skipped and not replaced.
\<close>

theorem generated_once:
  assumes "pick_valid pick"
  shows "distinct (fst (generateCombinations pick (parsePattern p)))
       \<and> length (fst (generateCombinations pick (parsePattern p))) \<le> combinationCount (parsePattern p)
       \<and> mset (shuffleArray pick xs) = mset xs
       \<and> (combinationCount (parsePattern p) \<le> 2 ^ 32 - 1 \<longrightarrow>
            generateCombinations pick (parsePattern p)
              = (List.map_filter (yield_of (parsePattern p))
                   (shuffleArray pick [0..<combinationCount (parsePattern p)]), None))"
proof -
  let ?ps = "parsePattern p"
  have ok: "list_all part_ok ?ps" by (rule parsePattern_ok)
  note e = emit_shuffled [OF ok assms]
  from generateCombinations_cases [OF ok, of pick]
  have a: "distinct (fst (generateCombinations pick ?ps))
       \<and> length (fst (generateCombinations pick ?ps)) \<le> combinationCount ?ps"
    using e by auto
  have b: "mset (shuffleArray pick xs) = mset xs"
    using assms by (rule shuffleArray_mset)
  have c: "generateCombinations pick ?ps
         = (List.map_filter (yield_of ?ps) (shuffleArray pick [0..<combinationCount ?ps]), None)"
    if le: "combinationCount ?ps \<le> 2 ^ 32 - 1"
  proof -
    have "(2::nat) ^ 32 - 1 < 2 ^ 53" by simp
    with le have "combinationCount ?ps < 2 ^ 53" by (rule le_less_trans)
    with ok have "totalCombinations ?ps = Num (combinationCount ?ps)"
      by (rule totalCombinations_exact_fwd)
    with le e(1) show ?thesis
      by (simp add: generateCombinations_def)
  qed
  from a b c show ?thesis by blast
qed

lemma validateExtensions_nonempty: "validateExtensions exts = None \<Longrightarrow> 1 \<le> length exts"
  by (cases exts) (simp_all add: validateExtensions_def)

lemma analyzePattern_exact:
  assumes "validatePattern p = None" and "validateExtensions exts = None"
    and "combinationCount (parsePattern p) * length exts < 2 ^ 53"
  shows "\<exists>a. analyzePattern \<lparr>entry_pattern = p, entry_extensions = exts, entry_comment = c\<rparr> = Inr a
           \<and> combinations a = Num (combinationCount (parsePattern p))
           \<and> totalDomains a = Num (combinationCount (parsePattern p) * length exts)"
proof -
  let ?n = "combinationCount (parsePattern p)"
  from assms(2) have "1 \<le> length exts" by (rule validateExtensions_nonempty)
  then have "?n \<le> ?n * length exts" by simp
  from this assms(3) have small: "?n < 2 ^ 53" by (rule le_less_trans)
  have count: "foldl count_step (Num 1) (parsePattern p) = Num ?n"
    using parsePattern_ok small by (rule count_exact)
  have total: "times_number (Num ?n) (Num (length exts)) = Num (?n * length exts)"
    using assms(3) by (rule times_number_exact)
  show ?thesis
    using assms(1,2) count total by (simp add: analyzePattern_def Let_def del: times_number.simps)
qed

text \<open>
  Claim C3, as amended. For every pattern that passes \<open>validatePattern\<close> and every
  extension list that passes \<open>validateExtensions\<close>, when the product of the alphabet
  sizes times the number of extensions is within the safe integer range (below
  \<open>2^53\<close>), \<open>analyzePattern\<close> returns \<open>combinations\<close> equal to the exact product
  and \<open>totalDomains\<close> equal to that product times the number of extensions. Nothing
  is claimed above the safe range.
\<close>

theorem analyze_exact_in_safe_range:
  assumes "validatePattern p = None" and "validateExtensions exts = None"
    and "combinationCount (parsePattern p) * length exts < 2 ^ 53"
  shows "\<exists>a. analyzePattern \<lparr>entry_pattern = p, entry_extensions = exts, entry_comment = c\<rparr> = Inr a
           \<and> combinations a = Num (combinationCount (parsePattern p))
           \<and> totalDomains a = Num (combinationCount (parsePattern p) * length exts)"
  using assms by (rule analyzePattern_exact)

lemmas parse_simps = parsePattern_def eval_simps push_def processLiteral_def Let_def
lemmas validate_simps = validatePattern_def startsWith_def endsWith_def validChars_def
  validateExtensions_def test_ext_format_def ext_char_def is_digit_def
lemmas alphabet_simps = CONSONANTS_def VOWELS_def NUMBERS_def LETTERS_def ALL_CHARS_def split_chars_def

lemma count_v: "combinationCount (parsePattern ''v'') = 5"
  by (simp add: parse_v combinationCount_def alphabet_size_def alphabet_simps)

lemma pick_valid_zero: "pick_valid pick_zero"
  by (simp add: pick_valid_def pick_zero_def)

theorem generated_once_witness:
  "pick_valid pick_zero
   \<and> combinationCount (parsePattern ''v'') \<le> 2 ^ 32 - 1
   \<and> distinct (fst (generateCombinations pick_zero (parsePattern ''v'')))
   \<and> length (fst (generateCombinations pick_zero (parsePattern ''v''))) \<le> 5
   \<and> mset (shuffleArray pick_zero [0..<5]) = mset [0..<5]
   \<and> generateCombinations pick_zero (parsePattern ''v'')
        = (List.map_filter (yield_of (parsePattern ''v'')) (shuffleArray pick_zero [0..<5]), None)"
proof -
  have c: "combinationCount (parsePattern ''v'') \<le> 2 ^ 32 - 1"
    by (simp add: count_v)
  from pick_valid_zero c generated_once [OF pick_valid_zero, of "''v''" "[0..<5]"] show ?thesis
    by (auto simp: count_v)
qed

lemma parse_ll:
  "parsePattern ''ll'' =
     [\<lparr>part_type = ''l'', part_value = None, possibilities = Some LETTERS, isWildcard = None\<rparr>,
      \<lparr>part_type = ''l'', part_value = None, possibilities = Some LETTERS, isWildcard = None\<rparr>]"
  by (simp add: parse_simps)

lemma count_ll: "combinationCount (parsePattern ''ll'') = 676"
  by (simp add: parse_ll combinationCount_def alphabet_size_def alphabet_simps)

theorem analyze_exact_in_safe_range_witness:
  "validatePattern ''ll'' = None
   \<and> validateExtensions [''.com'', ''.net'', ''.org''] = None
   \<and> (\<exists>a. analyzePattern \<lparr>entry_pattern = ''ll'', entry_extensions = [''.com'', ''.net'', ''.org''],
                            entry_comment = None\<rparr> = Inr a
          \<and> combinations a = Num 676 \<and> totalDomains a = Num 2028)"
proof -
  have v: "validatePattern ''ll'' = None"
    by (simp add: validate_simps)
  have e: "validateExtensions [''.com'', ''.net'', ''.org''] = None"
    by (simp add: validate_simps)
  have s: "combinationCount (parsePattern ''ll'') * length [''.com'', ''.net'', ''.org''] < 2 ^ 53"
    by (simp add: count_ll)
  from v e analyze_exact_in_safe_range [OF v e s, of None] show ?thesis
    by (simp add: count_ll)
qed

lemma floorlog_37_11: "floorlog 2 177917621779460413 = 58"
proof -
  have "floorlog 2 177917621779460413 \<le> 58"
    by (rule floorlog_leI) simp_all
  moreover have "Suc 57 \<le> floorlog 2 177917621779460413"
    by (rule floorlog_ge_SucI) simp_all
  ultimately show ?thesis by simp
qed

lemma round_37_11: "round_double 177917621779460413 = 177917621779460416"
  unfolding round_double_def Let_def floorlog_37_11 by simp

lemma parse_wild11:
  "parsePattern ''___________'' = [wild, wild, wild, wild, wild, wild, wild, wild, wild, wild, wild]"
  by (simp add: parse_simps wild_def)

lemma length_ALL_CHARS: "length ALL_CHARS = 37"
  by (simp add: alphabet_simps)

lemma alphabet_size_wild: "alphabet_size wild = 37"
  by (simp add: alphabet_size_def wild_def length_ALL_CHARS)

lemma count_wild11: "combinationCount (parsePattern ''___________'') = 177917621779460413"
  by (simp add: parse_wild11 combinationCount_def alphabet_size_wild)

lemma count_step_wild: "count_step (Num x) wild = times_number (Num x) (Num 37)"
  by (simp add: count_step_def wild_def length_ALL_CHARS)

lemma times_37: "x * 37 < 2 ^ 53 \<Longrightarrow> times_number (Num x) (Num 37) = Num (x * 37)"
  by (rule times_number_exact)

lemma fold_wild11: "foldl count_step (Num 1) [wild, wild, wild, wild, wild, wild, wild, wild, wild, wild, wild] = Num 177917621779460416"
proof -
  have "foldl count_step (Num 1) [wild, wild, wild, wild, wild, wild, wild, wild, wild, wild] = Num 4808584372417849"
    by (simp add: count_step_wild times_37 del: times_number.simps)
  moreover have "times_number (Num 4808584372417849) (Num 37) = Num 177917621779460416"
    by (simp add: round_37_11)
  moreover have "[wild, wild, wild, wild, wild, wild, wild, wild, wild, wild, wild] = [wild, wild, wild, wild, wild, wild, wild, wild, wild, wild] @ [wild]"
    by simp
  ultimately show ?thesis
    by (simp only: foldl_append foldl.simps count_step_wild)
qed

text \<open>
  Claim C3 as stated fails: eleven underscores have \<open>37^11 = 177917621779460413\<close>
  combinations, and \<open>analyzePattern\<close> reports 177917621779460416.
\<close>

theorem analyze_exact_counterexample:
  "validatePattern ''___________'' = None
   \<and> validateExtensions [''.com''] = None
   \<and> combinationCount (parsePattern ''___________'') = 177917621779460413
   \<and> map_sum id combinations
        (analyzePattern \<lparr>entry_pattern = ''___________'', entry_extensions = [''.com''],
                          entry_comment = None\<rparr>)
       = Inr (Num 177917621779460416)"
proof -
  have v: "validatePattern ''___________'' = None"
    by (simp add: validate_simps)
  have e: "validateExtensions [''.com''] = None"
    by (simp add: validate_simps)
  from v e have "map_sum id combinations
        (analyzePattern \<lparr>entry_pattern = ''___________'', entry_extensions = [''.com''],
                          entry_comment = None\<rparr>)
       = Inr (foldl count_step (Num 1) (parsePattern ''___________''))"
    by (simp add: analyzePattern_def Let_def)
  then have a: "map_sum id combinations
        (analyzePattern \<lparr>entry_pattern = ''___________'', entry_extensions = [''.com''],
                          entry_comment = None\<rparr>)
       = Inr (Num 177917621779460416)"
    by (simp only: parse_wild11 fold_wild11)
  from v e count_wild11 a show ?thesis
    by (intro conjI)
qed


section \<open>Literals with digits\<close>

lemma decode_first_digit:
  assumes "possibilities part = Some [u]" and "test_has_digit u"
  shows "decode (part # rest) i = Skip"
  using assms
  by (simp add: decode_def modulo_current_def ToString_def)

lemma emit_all_skip:
  assumes "\<forall>i. decode ps i = Skip"
  shows "emit ps indices = ([], None)"
  using assms by (induction indices) simp_all

lemma generate_all_skip:
  assumes "\<forall>i. decode ps i = Skip"
  shows "fst (generateCombinations pick ps) = []"
  using emit_all_skip [OF assms]
  by (simp add: generateCombinations_def split: number.splits)

lemma toLowerCase_has_digit: "test_has_digit v \<Longrightarrow> test_has_digit (toLowerCase v)"
  by (auto simp: test_has_digit_def toLowerCase_def list_ex_iff toLowerCase_char_digit
      intro!: bexI)

lemma test_starts_has_digit: "test_starts_with_digit v \<Longrightarrow> test_has_digit v"
  by (cases v) (simp_all add: test_starts_with_digit_def test_has_digit_def)

lemma first_literal_with_digit:
  assumes "parsePattern p = part # rest" and "part_type part = ''literal''"
    and "part_value part = Some v" and "test_has_digit v"
  shows "fst (generateCombinations pick (parsePattern p)) = []"
proof -
  have "list_all part_ok (parsePattern p)" by (rule parsePattern_ok)
  with assms(1) have "part_ok part" by simp
  with assms(2,3) have poss: "possibilities part = Some [toLowerCase v]"
    by (auto simp: part_ok_def)
  from assms(4) have "test_has_digit (toLowerCase v)" by (rule toLowerCase_has_digit)
  with poss have "\<forall>i. decode (part # rest) i = Skip"
    by (simp add: decode_first_digit)
  then have "fst (generateCombinations pick (part # rest)) = []"
    by (rule generate_all_skip)
  with assms(1) show ?thesis by simp
qed

lemma parse_a1cc:
  "parsePattern ''a1cc'' =
     [\<lparr>part_type = ''literal'', part_value = Some ''a1'', possibilities = Some [''a1''], isWildcard = None\<rparr>,
      \<lparr>part_type = ''c'', part_value = None, possibilities = Some CONSONANTS, isWildcard = None\<rparr>,
      \<lparr>part_type = ''c'', part_value = None, possibilities = Some CONSONANTS, isWildcard = None\<rparr>]"
  by (simp add: parse_simps)

lemma parse_1a:
  "parsePattern ''1a'' =
     [\<lparr>part_type = ''literal'', part_value = Some ''1a'', possibilities = Some [''1a''], isWildcard = None\<rparr>]"
  by (simp add: parse_simps)

lemma parse_9x_l:
  "parsePattern ''9X-l'' =
     [\<lparr>part_type = ''literal'', part_value = Some ''9X'', possibilities = Some [''9x''], isWildcard = None\<rparr>,
      \<lparr>part_type = ''-'', part_value = None, possibilities = Some [''-''], isWildcard = None\<rparr>,
      \<lparr>part_type = ''l'', part_value = None, possibilities = Some LETTERS, isWildcard = None\<rparr>]"
  by (simp add: parse_simps)

lemma total_a1cc: "totalCombinations (parsePattern ''a1cc'') = Num 400"
  by (simp add: parse_a1cc totalCombinations_def length_or_1_def alphabet_simps round_double_def)

lemma total_1a: "totalCombinations (parsePattern ''1a'') = Num 1"
  by (simp add: parse_1a totalCombinations_def length_or_1_def round_double_def)

lemma count_a1cc: "combinationCount (parsePattern ''a1cc'') = 400"
  by (simp add: parse_a1cc combinationCount_def alphabet_size_def alphabet_simps)

lemma has_digit_a1: "test_has_digit ''a1''"
  by (simp add: test_has_digit_def is_digit_def)

lemma generate_a1cc: "generateCombinations pick (parsePattern ''a1cc'') = ([], None)"
proof -
  have "\<forall>i. decode (parsePattern ''a1cc'') i = Skip"
    unfolding parse_a1cc by (simp add: decode_first_digit has_digit_a1)
  then have "emit (parsePattern ''a1cc'') indices = ([], None)" for indices
    by (rule emit_all_skip)
  then show ?thesis
    by (simp add: generateCombinations_def total_a1cc)
qed

text \<open>
  Claim C10. For every pattern whose first parsed segment is a literal with a digit at
  any position, \<open>generateCombinations\<close> emits no candidate, for every outcome of the
  shuffle: the first-position check tests the whole literal unit for a digit. The pattern
  \<open>a1cc\<close> passes \<open>validatePattern\<close>, generates nothing, and \<open>analyzePattern\<close>
  reports 400 combinations for it.
\<close>

theorem literal_with_digit_emits_nothing:
  "(parsePattern p = part # rest \<and> part_type part = ''literal''
      \<and> part_value part = Some v \<and> test_has_digit v
     \<longrightarrow> fst (generateCombinations pick (parsePattern p)) = [])
   \<and> validatePattern ''a1cc'' = None
   \<and> generateCombinations pick (parsePattern ''a1cc'') = ([], None)
   \<and> map_sum id combinations
        (analyzePattern \<lparr>entry_pattern = ''a1cc'', entry_extensions = [''.com''],
                          entry_comment = None\<rparr>) = Inr (Num 400)"
proof -
  have v: "validatePattern ''a1cc'' = None"
    by (simp add: validate_simps)
  have e: "validateExtensions [''.com''] = None"
    by (simp add: validate_simps)
  have s: "combinationCount (parsePattern ''a1cc'') * length [''.com''] < 2 ^ 53"
    by (simp add: count_a1cc)
  from analyzePattern_exact [OF v e s, of None]
  have a: "map_sum id combinations
        (analyzePattern \<lparr>entry_pattern = ''a1cc'', entry_extensions = [''.com''],
                          entry_comment = None\<rparr>) = Inr (Num 400)"
    by (auto simp: count_a1cc)
  from v a generate_a1cc [of pick] first_literal_with_digit [of p part rest v pick]
  show ?thesis by blast
qed


theorem literal_with_digit_emits_nothing_witness:
  "parsePattern ''9X-l'' =
     \<lparr>part_type = ''literal'', part_value = Some ''9X'', possibilities = Some [''9x''],
       isWildcard = None\<rparr>
     # [\<lparr>part_type = ''-'', part_value = None, possibilities = Some [''-''], isWildcard = None\<rparr>,
        \<lparr>part_type = ''l'', part_value = None, possibilities = Some LETTERS, isWildcard = None\<rparr>]
   \<and> test_has_digit ''9X''
   \<and> fst (generateCombinations pick_zero (parsePattern ''9X-l'')) = []"
proof -
  have d: "test_has_digit ''9X''"
    by (simp add: test_has_digit_def is_digit_def)
  from parse_9x_l d
    literal_with_digit_emits_nothing [of "''9X-l''"
      "\<lparr>part_type = ''literal'', part_value = Some ''9X'', possibilities = Some [''9x''],
        isWildcard = None\<rparr>"
      "[\<lparr>part_type = ''-'', part_value = None, possibilities = Some [''-''], isWildcard = None\<rparr>,
        \<lparr>part_type = ''l'', part_value = None, possibilities = Some LETTERS, isWildcard = None\<rparr>]"
      "''9X''" pick_zero]
  show ?thesis by simp
qed

lemma generate_1a: "generateCombinations pick (parsePattern ''1a'') = ([], None)"
proof -
  have "test_has_digit ''1a''"
    by (simp add: test_has_digit_def is_digit_def)
  then have "\<forall>i. decode (parsePattern ''1a'') i = Skip"
    unfolding parse_1a by (simp add: decode_first_digit)
  then have "emit (parsePattern ''1a'') indices = ([], None)" for indices
    by (rule emit_all_skip)
  then show ?thesis
    by (simp add: generateCombinations_def total_1a)
qed

text \<open>
  Claim C9 as stated fails: the only segment of \<open>1a\<close> is a literal that begins with a
  digit; the candidate its index decodes to is \<open>1a\<close>, and nothing is emitted.
\<close>

theorem literal_first_digit_counterexample:
  "part_type (hd (parsePattern ''1a'')) = ''literal''
   \<and> part_value (hd (parsePattern ''1a'')) = Some ''1a''
   \<and> test_starts_with_digit ''1a''
   \<and> units (parsePattern ''1a'') 0 = ''1a''
   \<and> generateCombinations pick_zero (parsePattern ''1a'') = ([], None)"
  by (simp add: generate_1a) (simp add: parse_1a test_starts_with_digit_def is_digit_def)

text \<open>
  Claim C9, as amended. The pruning does reject a literal segment that starts with a
  digit: for every pattern whose first parsed segment is a literal whose text begins with
  a digit, \<open>generateCombinations\<close> emits no candidate, for every outcome of the shuffle,
  because the first-position check is applied to the literal unit.
\<close>

theorem literal_first_digit_rejected:
  assumes "parsePattern p = part # rest" and "part_type part = ''literal''"
    and "part_value part = Some v" and "test_starts_with_digit v"
  shows "fst (generateCombinations pick (parsePattern p)) = []"
  using assms(1,2,3) test_starts_has_digit [OF assms(4)] by (rule first_literal_with_digit)

lemma parse_7z:
  "parsePattern ''7z_'' =
     [\<lparr>part_type = ''literal'', part_value = Some ''7z'', possibilities = Some [''7z''],
        isWildcard = None\<rparr>, wild]"
  by (simp add: parse_simps wild_def)

theorem literal_first_digit_rejected_witness:
  "parsePattern ''7z_'' =
     [\<lparr>part_type = ''literal'', part_value = Some ''7z'', possibilities = Some [''7z''],
        isWildcard = None\<rparr>, wild]
   \<and> test_starts_with_digit ''7z''
   \<and> fst (generateCombinations pick_zero (parsePattern ''7z_'')) = []"
proof -
  have d: "test_starts_with_digit ''7z''"
    by (simp add: test_starts_with_digit_def is_digit_def)
  have t: "part_type \<lparr>part_type = ''literal'', part_value = Some ''7z'',
             possibilities = Some [''7z''], isWildcard = None\<rparr> = ''literal''"
    by simp
  have v: "part_value \<lparr>part_type = ''literal'', part_value = Some ''7z'',
             possibilities = Some [''7z''], isWildcard = None\<rparr> = Some ''7z''"
    by simp
  from parse_7z d literal_first_digit_rejected [OF parse_7z t v d, of pick_zero]
  show ?thesis by simp
qed

end
